theory Spec2Isabelle
  imports Complex_Main
begin

section \<open>Numbers\<close>

text \<open>
  The program computes with JavaScript numbers. Sizes (the width and height of a child,
  the width of the container, margins and paddings) are modelled as reals: the arithmetic
  is exact, rounding and overflow of doubles are left out. A division by zero does not
  raise in JavaScript, it yields Infinity, -Infinity or NaN, and every sum, difference and
  product the program forms with such a value is again one of the three. A value that
  may come out of a division is therefore a \<open>jsnum\<close>: a real, or \<open>NonFinite\<close> for
  any of the three.
\<close>

datatype jsnum = Fin real | NonFinite

fun jadd :: "jsnum \<Rightarrow> jsnum \<Rightarrow> jsnum" where
  "jadd (Fin a) (Fin b) = Fin (a + b)"
| "jadd _ _ = NonFinite"

fun jsub :: "jsnum \<Rightarrow> jsnum \<Rightarrow> jsnum" where
  "jsub (Fin a) (Fin b) = Fin (a - b)"
| "jsub _ _ = NonFinite"

fun jmul :: "jsnum \<Rightarrow> jsnum \<Rightarrow> jsnum" where
  "jmul (Fin a) (Fin b) = Fin (a * b)"
| "jmul _ _ = NonFinite"

definition jdiv :: "real \<Rightarrow> real \<Rightarrow> jsnum" where
  "jdiv a b = (if b = 0 then NonFinite else Fin (a / b))"

fun jmin :: "jsnum \<Rightarrow> jsnum \<Rightarrow> jsnum" where
  "jmin (Fin a) (Fin b) = Fin (min a b)"
| "jmin _ _ = NonFinite"

section \<open>FlexAlignController\<close>

text \<open>
  An item of the controller is a display object. The controller reads its \<open>width\<close> and
  \<open>height\<close> and assigns its \<open>x\<close> and \<open>y\<close>; whatever else the object carries is the
  extension of the record. The items of one controller are distinct objects, so the
  array of references is a list of records, and a method that mutates the children
  returns the list with the children updated, in the order of \<open>this.items\<close>.
\<close>

record item =
  child_x :: jsnum
  child_y :: jsnum
  child_width :: real
  child_height :: real

text \<open>
  \<open>items.forEach((child) => { child.x = put(x, child); x = next(x, child) })\<close>: the loop
  shape of \<open>alignNowrap\<close>, with the running \<open>x\<close> as accumulator.
\<close>

primrec forEach_x ::
  "(jsnum \<Rightarrow> 'a item_scheme \<Rightarrow> jsnum) \<Rightarrow> (jsnum \<Rightarrow> 'a item_scheme \<Rightarrow> jsnum) \<Rightarrow>
   jsnum \<Rightarrow> 'a item_scheme list \<Rightarrow> 'a item_scheme list" where
  "forEach_x put next x [] = []"
| "forEach_x put next x (child # rest) =
     child\<lparr>child_x := put x child\<rparr> # forEach_x put next (next x child) rest"

text \<open>\<open>alignFlexColumn\<close>: \<open>let y = 0; items.forEach((child) => { child.y = y; y += child.height })\<close>.\<close>

primrec column_from :: "real \<Rightarrow> 'a item_scheme list \<Rightarrow> 'a item_scheme list" where
  "column_from y [] = []"
| "column_from y (child # rest) =
     child\<lparr>child_y := Fin y\<rparr> # column_from (y + child_height child) rest"

definition alignFlexColumn :: "'a item_scheme list \<Rightarrow> 'a item_scheme list" where
  "alignFlexColumn items = column_from 0 items"

text \<open>
  \<open>alignNowrap\<close>. \<open>rootWidth\<close> is \<open>this.root.width\<close>. The \<open>default\<close> label of the switch
  stands with the \<open>start\<close> cases, so every value that no other case names is laid out as
  \<open>start\<close>; \<open>stretch\<close> has a case of its own with an empty body. The \<open>end\<close> cases
  iterate over a reversed copy of the array, which holds the same objects.
\<close>

definition alignNowrap :: "real \<Rightarrow> string \<Rightarrow> 'a item_scheme list \<Rightarrow> 'a item_scheme list" where
  "alignNowrap rootWidth justifyContent items =
    (let totalWidth = foldl (\<lambda>acc child. acc + child_width child) 0 items;
         offset = (rootWidth - totalWidth) / 2;
         space = rootWidth - totalWidth;
         n = real (length items)
     in
       if justifyContent = ''flex-end'' \<or> justifyContent = ''end'' \<or> justifyContent = ''right'' then
         rev (forEach_x
                (\<lambda>x child. jsub (jsub (Fin rootWidth) x) (Fin (child_width child)))
                (\<lambda>x child. jadd x (Fin (child_width child)))
                (Fin 0) (rev items))
       else if justifyContent = ''center'' then
         forEach_x (\<lambda>x child. jadd x (Fin offset))
                   (\<lambda>x child. jadd x (Fin (child_width child))) (Fin 0) items
       else if justifyContent = ''space-between'' then
         forEach_x (\<lambda>x child. x)
                   (\<lambda>x child. jadd x (jadd (Fin (child_width child)) (jdiv space (n - 1))))
                   (Fin 0) items
       else if justifyContent = ''space-around'' then
         forEach_x (\<lambda>x child. jadd x (jdiv (space / 2) n))
                   (\<lambda>x child. jadd x (jadd (Fin (child_width child)) (jdiv space n)))
                   (Fin 0) items
       else if justifyContent = ''space-evenly'' then
         forEach_x (\<lambda>x child. jadd x (jdiv space (n + 1)))
                   (\<lambda>x child. jadd x (jadd (Fin (child_width child)) (jdiv space (n + 1))))
                   (Fin 0) items
       else if justifyContent = ''stretch'' then
         items
       else
         forEach_x (\<lambda>x child. x)
                   (\<lambda>x child. jadd x (Fin (child_width child))) (Fin 0) items)"

text \<open>
  \<open>alignRowWrapStart\<close>: the loop keeps \<open>maxChildHeight\<close>, \<open>x\<close> and \<open>y\<close>. The child is
  first put at \<open>(x, y)\<close>; when \<open>x + child.width > this.root.width\<close> it is moved to
  \<open>(0, y + maxChildHeight)\<close>, which opens the next line.
\<close>

primrec wrapStart_from ::
  "real \<Rightarrow> real \<Rightarrow> real \<Rightarrow> real \<Rightarrow> 'a item_scheme list \<Rightarrow> 'a item_scheme list" where
  "wrapStart_from rootWidth maxChildHeight x y [] = []"
| "wrapStart_from rootWidth maxChildHeight x y (child # rest) =
     (if x + child_width child > rootWidth then
        child\<lparr>child_x := Fin 0, child_y := Fin (y + maxChildHeight)\<rparr> #
        wrapStart_from rootWidth
          (if child_height child > 0 then child_height child else 0)
          (child_width child) (y + maxChildHeight) rest
      else
        child\<lparr>child_x := Fin x, child_y := Fin y\<rparr> #
        wrapStart_from rootWidth
          (if child_height child > maxChildHeight then child_height child else maxChildHeight)
          (x + child_width child) y rest)"

definition alignRowWrapStart :: "real \<Rightarrow> 'a item_scheme list \<Rightarrow> 'a item_scheme list" where
  "alignRowWrapStart rootWidth items = wrapStart_from rootWidth 0 0 0 items"

text \<open>
  The wrapping rule in the words of the specification, to compare \<open>alignRowWrapStart\<close>
  with: the children are packed greedily into lines, a child opens a new line when adding
  it would take the cumulative \<open>x\<close> beyond the container width; in a line every child
  sits behind the one before it; a line lies below the line before it by that line's
  largest child height. \<open>spec_lines_from\<close> gets the cumulative \<open>x\<close> and the line being
  filled.
\<close>

primrec spec_lines_from ::
  "real \<Rightarrow> real \<Rightarrow> 'a item_scheme list \<Rightarrow> 'a item_scheme list \<Rightarrow> 'a item_scheme list list" where
  "spec_lines_from containerWidth x line [] = [line]"
| "spec_lines_from containerWidth x line (child # rest) =
     (if x + child_width child > containerWidth
      then line # spec_lines_from containerWidth (child_width child) [child] rest
      else spec_lines_from containerWidth (x + child_width child) (line @ [child]) rest)"

primrec spec_place_from :: "real \<Rightarrow> real \<Rightarrow> 'a item_scheme list \<Rightarrow> 'a item_scheme list" where
  "spec_place_from x y [] = []"
| "spec_place_from x y (child # rest) =
     child\<lparr>child_x := Fin x, child_y := Fin y\<rparr> # spec_place_from (x + child_width child) y rest"

definition spec_line_height :: "'a item_scheme list \<Rightarrow> real" where
  "spec_line_height line = foldl (\<lambda>m child. max m (child_height child)) 0 line"

primrec spec_place_lines :: "real \<Rightarrow> 'a item_scheme list list \<Rightarrow> 'a item_scheme list" where
  "spec_place_lines y [] = []"
| "spec_place_lines y (line # rest) =
     spec_place_from 0 y line @ spec_place_lines (y + spec_line_height line) rest"

text \<open>
  The other wrap methods run the same loop over \<open>(child, id)\<close> and keep
  \<open>firstLineElementID\<close> as well. When a child overflows the line, they first shift the
  children \<open>firstLineElementID .. id\<close> (a \<open>for\<close> loop over the array, the overflowing
  child included), then open the next line as \<open>alignRowWrapStart\<close> does. The shifting
  loop is the parameter \<open>fill\<close>: it gets the running \<open>x\<close>, \<open>firstLineElementID\<close>,
  \<open>id\<close> (written \<open>idx\<close>) and the array.
\<close>

record 'a wrap_state =
  ws_items :: "'a item_scheme list"
  maxChildHeight :: real
  ws_x :: real
  ws_y :: real
  firstLineElementID :: nat

definition wrap_step ::
  "(real \<Rightarrow> nat \<Rightarrow> nat \<Rightarrow> 'a item_scheme list \<Rightarrow> 'a item_scheme list) \<Rightarrow>
   real \<Rightarrow> 'a wrap_state \<Rightarrow> nat \<Rightarrow> 'a wrap_state" where
  "wrap_step fill rootWidth s idx =
    (let child = ws_items s ! idx;
         items1 = (ws_items s)[idx := child\<lparr>child_x := Fin (ws_x s), child_y := Fin (ws_y s)\<rparr>];
         s1 = (if ws_x s + child_width child > rootWidth then
                 let items2 = fill (ws_x s) (firstLineElementID s) idx items1;
                     y' = ws_y s + maxChildHeight s
                 in \<lparr>ws_items = items2[idx := (items2 ! idx)\<lparr>child_x := Fin 0, child_y := Fin y'\<rparr>],
                     maxChildHeight = 0,
                     ws_x = child_width child,
                     ws_y = y',
                     firstLineElementID = idx\<rparr>
               else s\<lparr>ws_items := items1, ws_x := ws_x s + child_width child\<rparr>)
     in if child_height child > maxChildHeight s1
        then s1\<lparr>maxChildHeight := child_height child\<rparr> else s1)"

definition wrap_loop ::
  "(real \<Rightarrow> nat \<Rightarrow> nat \<Rightarrow> 'a item_scheme list \<Rightarrow> 'a item_scheme list) \<Rightarrow>
   real \<Rightarrow> 'a item_scheme list \<Rightarrow> 'a wrap_state" where
  "wrap_loop fill rootWidth items =
     foldl (wrap_step fill rootWidth)
       \<lparr>ws_items = items, maxChildHeight = 0, ws_x = 0, ws_y = 0, firstLineElementID = 0\<rparr>
       [0..<length items]"

text \<open>\<open>items[i].x += offset\<close>, the body of the shifting loop of \<open>alignRowWrapEnd\<close> and \<open>alignRowWrapCenter\<close>.\<close>

definition add_x :: "jsnum \<Rightarrow> 'a item_scheme list \<Rightarrow> nat \<Rightarrow> 'a item_scheme list" where
  "add_x offset items i = items[i := (items ! i)\<lparr>child_x := jadd (child_x (items ! i)) offset\<rparr>]"

definition alignRowWrapEnd :: "real \<Rightarrow> 'a item_scheme list \<Rightarrow> 'a item_scheme list" where
  "alignRowWrapEnd rootWidth items =
    (let s = wrap_loop
               (\<lambda>x first idx its. foldl (add_x (Fin (rootWidth - x))) its [first..<Suc idx])
               rootWidth items
     in foldl (add_x (Fin (rootWidth - ws_x s))) (ws_items s)
          [firstLineElementID s..<length items])"

definition alignRowWrapCenter :: "real \<Rightarrow> 'a item_scheme list \<Rightarrow> 'a item_scheme list" where
  "alignRowWrapCenter rootWidth items =
    (let s = wrap_loop
               (\<lambda>x first idx its. foldl (add_x (Fin ((rootWidth - x) / 2))) its [first..<Suc idx])
               rootWidth items
     in foldl (add_x (Fin ((rootWidth - ws_x s) / 2))) (ws_items s)
          [firstLineElementID s..<length items])"

text \<open>
  \<open>items[i].x += gap * number; number++\<close>: the body of the shifting loop of
  \<open>alignRowWrapSpaceBetween\<close>. Inside the \<open>forEach\<close> the gap is \<open>space / lineAmount\<close> with
  \<open>lineAmount = id - firstLineElementID - 1\<close>; after it the gap is
  \<open>lineAmount > 0 ? space / lineAmount : space\<close> with \<open>lineAmount = id - firstLineElementID\<close>
  and \<open>id = items.length - 1\<close>.
\<close>

definition between_body ::
  "jsnum \<Rightarrow> 'a item_scheme list \<times> real \<Rightarrow> nat \<Rightarrow> 'a item_scheme list \<times> real" where
  "between_body gap st i =
    (case st of (items, number) \<Rightarrow>
       (items[i := (items ! i)\<lparr>child_x := jadd (child_x (items ! i)) (jmul gap (Fin number))\<rparr>],
        number + 1))"

definition alignRowWrapSpaceBetween :: "real \<Rightarrow> 'a item_scheme list \<Rightarrow> 'a item_scheme list" where
  "alignRowWrapSpaceBetween rootWidth items =
    (let s = wrap_loop
               (\<lambda>x first idx its.
                  let space = rootWidth - x;
                      lineAmount = real_of_int (int idx - int first - 1)
                  in fst (foldl (between_body (jdiv space lineAmount)) (its, 0) [first..<Suc idx]))
               rootWidth items;
         space = rootWidth - ws_x s;
         lineAmount = real_of_int (int (length items) - 1 - int (firstLineElementID s))
     in fst (foldl (between_body (if lineAmount > 0 then jdiv space lineAmount else Fin space))
               (ws_items s, 0) [firstLineElementID s..<length items]))"

text \<open>
  \<open>items[i].x = tmpX + lead; tmpX += items[i].width + gap\<close>: the body of the shifting loop
  of \<open>alignRowWrapSpaceAround\<close> (\<open>lead = space / 2 / lineAmount\<close>, \<open>gap = space / lineAmount\<close>)
  and of \<open>alignRowWrapSpaceEvenly\<close> (\<open>lead = gap = space / (lineAmount + 1)\<close>). Inside the
  \<open>forEach\<close>, \<open>lineAmount = id - firstLineElementID\<close>; after it, one more.
\<close>

definition spread_body ::
  "jsnum \<Rightarrow> jsnum \<Rightarrow> 'a item_scheme list \<times> jsnum \<Rightarrow> nat \<Rightarrow> 'a item_scheme list \<times> jsnum" where
  "spread_body lead gap st i =
    (case st of (items, tmpX) \<Rightarrow>
       (items[i := (items ! i)\<lparr>child_x := jadd tmpX lead\<rparr>],
        jadd tmpX (jadd (Fin (child_width (items ! i))) gap)))"

definition alignRowWrapSpaceAround :: "real \<Rightarrow> 'a item_scheme list \<Rightarrow> 'a item_scheme list" where
  "alignRowWrapSpaceAround rootWidth items =
    (let s = wrap_loop
               (\<lambda>x first idx its.
                  let space = rootWidth - x;
                      lineAmount = real_of_int (int idx - int first)
                  in fst (foldl (spread_body (jdiv (space / 2) lineAmount) (jdiv space lineAmount))
                            (its, Fin 0) [first..<Suc idx]))
               rootWidth items;
         space = rootWidth - ws_x s;
         lineAmount = real_of_int (int (length items) - 1 - int (firstLineElementID s) + 1)
     in fst (foldl (spread_body (jdiv (space / 2) lineAmount) (jdiv space lineAmount))
               (ws_items s, Fin 0) [firstLineElementID s..<length items]))"

definition alignRowWrapSpaceEvenly :: "real \<Rightarrow> 'a item_scheme list \<Rightarrow> 'a item_scheme list" where
  "alignRowWrapSpaceEvenly rootWidth items =
    (let s = wrap_loop
               (\<lambda>x first idx its.
                  let space = rootWidth - x;
                      lineAmount = real_of_int (int idx - int first)
                  in fst (foldl (spread_body (jdiv space (lineAmount + 1)) (jdiv space (lineAmount + 1)))
                            (its, Fin 0) [first..<Suc idx]))
               rootWidth items;
         space = rootWidth - ws_x s;
         lineAmount = real_of_int (int (length items) - 1 - int (firstLineElementID s) + 1)
     in fst (foldl (spread_body (jdiv space (lineAmount + 1)) (jdiv space (lineAmount + 1)))
               (ws_items s, Fin 0) [firstLineElementID s..<length items]))"

text \<open>
  \<open>alignRowWrap\<close>: the \<open>default\<close> label stands with the \<open>start\<close> cases; \<open>stretch\<close> has
  an empty body.
\<close>

definition alignRowWrap :: "real \<Rightarrow> string \<Rightarrow> 'a item_scheme list \<Rightarrow> 'a item_scheme list" where
  "alignRowWrap rootWidth justifyContent items =
    (if justifyContent = ''flex-end'' \<or> justifyContent = ''end'' \<or> justifyContent = ''right'' then
       alignRowWrapEnd rootWidth items
     else if justifyContent = ''center'' then alignRowWrapCenter rootWidth items
     else if justifyContent = ''space-between'' then alignRowWrapSpaceBetween rootWidth items
     else if justifyContent = ''space-around'' then alignRowWrapSpaceAround rootWidth items
     else if justifyContent = ''space-evenly'' then alignRowWrapSpaceEvenly rootWidth items
     else if justifyContent = ''stretch'' then items
     else alignRowWrapStart rootWidth items)"

text \<open>
  \<open>alignRowReverse\<close>. The first loop assigns \<open>x\<close> only and collects the rows; a row is
  the list of the positions of its children in \<open>items\<close>, the row being filled is the last
  one. The second loop goes over the rows in reverse: every child of row \<open>rowID\<close> gets
  \<open>y = maxHeight[rowID]\<close>, and \<open>maxHeight[rowID + 1]\<close> becomes the largest height of the
  row (at least 0). \<open>justifyContent\<close> is not read.
\<close>

record 'a reverse_state =
  rs_items :: "'a item_scheme list"
  rs_maxChildHeight :: real
  rs_x :: real
  rs_y :: real
  rows :: "nat list list"

definition reverse_step :: "real \<Rightarrow> 'a reverse_state \<Rightarrow> nat \<Rightarrow> 'a reverse_state" where
  "reverse_step rootWidth s idx =
    (let child = rs_items s ! idx;
         s1 = (if rs_x s + child_width child > rootWidth then
                 \<lparr>rs_items = (rs_items s)[idx := child\<lparr>child_x := Fin 0\<rparr>],
                  rs_maxChildHeight = 0,
                  rs_x = child_width child,
                  rs_y = rs_y s + rs_maxChildHeight s,
                  rows = rows s @ [[idx]]\<rparr>
               else
                 s\<lparr>rs_items := (rs_items s)[idx := child\<lparr>child_x := Fin (rs_x s)\<rparr>],
                   rs_x := rs_x s + child_width child,
                   rows := butlast (rows s) @ [last (rows s) @ [idx]]\<rparr>)
     in if child_height child > rs_maxChildHeight s1
        then s1\<lparr>rs_maxChildHeight := child_height child\<rparr> else s1)"

definition reverse_row ::
  "'a item_scheme list \<times> real \<Rightarrow> nat list \<Rightarrow> 'a item_scheme list \<times> real" where
  "reverse_row st row =
    (case st of (items, prevMax) \<Rightarrow>
       foldl (\<lambda>(its, m) i.
                (its[i := (its ! i)\<lparr>child_y := Fin prevMax\<rparr>],
                 if m < child_height (its ! i) then child_height (its ! i) else m))
             (items, 0) row)"

definition alignRowReverse :: "real \<Rightarrow> string \<Rightarrow> 'a item_scheme list \<Rightarrow> 'a item_scheme list" where
  "alignRowReverse rootWidth justifyContent items =
    (let s = foldl (reverse_step rootWidth)
               \<lparr>rs_items = items, rs_maxChildHeight = 0, rs_x = 0, rs_y = 0, rows = [[]]\<rparr>
               [0..<length items]
     in fst (foldl reverse_row (rs_items s, 0) (rev (rows s))))"

text \<open>
  \<open>alignFlexRow\<close> and \<open>update\<close>. \<open>flexDirection\<close>, \<open>flexWrap\<close> and \<open>justifyContent\<close> are the
  values the two methods switch on (for the first two, the style's own value or, when
  it is missing, what \<open>getFlexDirection\<close> and \<open>getFlexWrap\<close> make of \<open>flexFlow\<close>).
  \<open>update\<close> throws on a direction it does not know.
\<close>

definition alignFlexRow ::
  "real \<Rightarrow> string \<Rightarrow> string \<Rightarrow> 'a item_scheme list \<Rightarrow> 'a item_scheme list" where
  "alignFlexRow rootWidth flexWrap justifyContent items =
    (if flexWrap = ''wrap-reverse'' then alignRowReverse rootWidth justifyContent items
     else if flexWrap = ''wrap'' then alignRowWrap rootWidth justifyContent items
     else alignNowrap rootWidth justifyContent items)"

datatype error = InvalidFlexDirection

definition FlexAlignController_update ::
  "real \<Rightarrow> string \<Rightarrow> string \<Rightarrow> string \<Rightarrow> 'a item_scheme list \<Rightarrow> error + 'a item_scheme list" where
  "FlexAlignController_update rootWidth flexDirection flexWrap justifyContent items =
    (if flexDirection = ''row'' then
       Inr (alignFlexRow rootWidth flexWrap justifyContent items)
     else if flexDirection = ''row-reverse'' then
       Inr (rev (alignFlexRow rootWidth flexWrap justifyContent (rev items)))
     else if flexDirection = ''column'' then
       Inr (alignFlexColumn items)
     else if flexDirection = ''column-reverse'' then
       Inr (rev (alignFlexColumn (rev items)))
     else Inl InvalidFlexDirection)"

text \<open>
  A child with its position blanked: what is left is everything an alignment is not to
  change (the width, the height and the rest of the object).
\<close>

definition unplaced :: "'a item_scheme \<Rightarrow> 'a item_scheme" where
  "unplaced child = child\<lparr>child_x := Fin 0, child_y := Fin 0\<rparr>"

text \<open>
  Two arrays of items that differ at most in positions, and agree on \<open>x\<close> at the places
  in \<open>X\<close> and on \<open>y\<close> at the places in \<open>Y\<close>. This relates two runs of an alignment
  loop: the places a loop has written hold the same positions in both.
\<close>

definition alike ::
  "nat set \<Rightarrow> nat set \<Rightarrow> 'a item_scheme list \<Rightarrow> 'a item_scheme list \<Rightarrow> bool" where
  "alike X Y a b \<longleftrightarrow>
     map unplaced a = map unplaced b \<and>
     (\<forall>i \<in> X. i < length a \<longrightarrow> child_x (a ! i) = child_x (b ! i)) \<and>
     (\<forall>i \<in> Y. i < length a \<longrightarrow> child_y (a ! i) = child_y (b ! i))"

section \<open>Layout.float\<close>

text \<open>
  The anchor resolver is the method \<open>float\<close> of the class \<open>Layout\<close>. It reads the size
  the layout has just been given (\<open>this.size\<close>) and the \<open>float\<close> style, which is
  \<open>None\<close> when the options have no styles or no \<open>float\<close>, and assigns \<open>this.x\<close> and
  \<open>this.y\<close>. The switch has no \<open>default\<close>: a value that no case names falls through
  it, and so do \<open>left\<close>, \<open>top\<close> and \<open>leftTop\<close>, which have no case.
\<close>

record anchored =
  pos_x :: real
  pos_y :: real
  size_width :: real
  size_height :: real
  float_style :: "string option"

definition Layout_float :: "real \<Rightarrow> real \<Rightarrow> 'a anchored_scheme \<Rightarrow> 'a anchored_scheme" where
  "Layout_float parent_w parent_h l =
    (case float_style l of
       None \<Rightarrow> l
     | Some float \<Rightarrow>
         if float = ''rightTop'' \<or> float = ''right'' then
           l\<lparr>pos_x := parent_w - size_width l\<rparr>
         else if float = ''leftBottom'' \<or> float = ''bottom'' then
           l\<lparr>pos_y := parent_h - size_height l\<rparr>
         else if float = ''rightBottom'' then
           l\<lparr>pos_x := parent_w - size_width l, pos_y := parent_h - size_height l\<rparr>
         else if float = ''center'' then
           l\<lparr>pos_x := parent_w / 2 - size_width l / 2, pos_y := parent_h / 2 - size_height l / 2\<rparr>
         else if float = ''centerTop'' then
           l\<lparr>pos_x := parent_w / 2 - size_width l / 2\<rparr>
         else if float = ''centerBottom'' then
           l\<lparr>pos_x := parent_w / 2 - size_width l / 2, pos_y := parent_h - size_height l\<rparr>
         else if float = ''centerLeft'' then
           l\<lparr>pos_y := parent_h / 2 - size_height l / 2\<rparr>
         else if float = ''centerRight'' then
           l\<lparr>pos_y := parent_h / 2 - size_height l / 2, pos_x := parent_w - size_width l\<rparr>
         else l)"

section \<open>SizeController\<close>

text \<open>
  A \<open>FlexNumber\<close> of the style is a number or a percentage string; \<open>width\<close> and
  \<open>height\<close> can also be the string \<open>auto\<close>.
\<close>

datatype flexnum = Pixels real | Percent real

datatype dimension = Auto | Fixed flexnum

text \<open>
  Modelled from the spec: \<open>getNumber\<close> of \<open>utils/helpers\<close>, which is not among the
  sources. The specification gives: explicit pixels resolve to that value, a percentage
  to that share of the available size (\<open>50%\<close> of 200 is 100). Where the style has no
  value, \<open>getNumber\<close> returns \<open>undefined\<close> (the caller in \<open>Layout.resize\<close> falls back
  with \<open>??\<close>); that is \<open>map_option\<close> over this function.
\<close>

fun getNumber :: "flexnum \<Rightarrow> real \<Rightarrow> real" where
  "getNumber (Pixels v) maxPercentValue = v"
| "getNumber (Percent p) maxPercentValue = p / 100 * maxPercentValue"

text \<open>
  The \<open>background\<close> of the style is a colour or a display object with a width and a
  height of its own.
\<close>

datatype background_style = NoBackground | Color | Graphic real real

record style =
  width :: dimension
  height :: dimension
  maxWidth :: "flexnum option"
  maxHeight :: "flexnum option"
  scaleX :: real
  scaleY :: real
  background :: background_style
  display :: string
  paddingLeft :: real
  paddingRight :: real
  paddingTop :: real
  paddingBottom :: real
  marginLeft :: real
  marginRight :: real
  marginTop :: real
  marginBottom :: real
  flexDirection :: string
  flexWrap :: string
  justifyContent :: string

text \<open>
  A text object holds the two style fields the controller writes. Its measured width and
  height come from the rendering library and depend on them; they are the parameters
  \<open>text_width\<close> and \<open>text_height\<close> of \<open>update\<close>.
\<close>

record Text =
  wordWrap :: bool
  wordWrapWidth :: real

datatype content_child = TextChild Text | OtherChild

datatype SizeControl = innerText | stickToBackground | fitToParent

text \<open>
  The state of a layout that the controller reads and writes: the style, the children of
  \<open>layout.content\<close>, the \<open>padding\<close> of the parent when the parent is a \<open>Layout\<close>
  (\<open>parent.style.padding ?? 0\<close>), \<open>visible\<close>, \<open>_width\<close> and \<open>_height\<close>, the scale, the
  two fields \<open>parentWidth\<close> and \<open>parentHeight\<close>, and the items of the layout's align
  controller. \<open>layout.width\<close> is a getter for \<open>size.width\<close>, that is \<open>_width\<close>.
\<close>

record layout =
  layout_style :: style
  content_children :: "content_child list"
  parent_padding :: "real option"
  visible :: bool
  size__width :: real
  size__height :: real
  scale_x :: jsnum
  scale_y :: jsnum
  parentWidth :: real
  parentHeight :: real
  align_items :: "item list"

definition isItJustAText :: "layout \<Rightarrow> bool" where
  "isItJustAText l =
    (case content_children l of [TextChild t] \<Rightarrow> True | _ \<Rightarrow> False)"

definition sizeControlType :: "layout \<Rightarrow> SizeControl" where
  "sizeControlType l =
    (if isItJustAText l then innerText
     else if display (layout_style l) \<noteq> ''block'' \<and>
             (case background (layout_style l) of Graphic w h \<Rightarrow> True | _ \<Rightarrow> False)
     then stickToBackground
     else fitToParent)"

text \<open>
  JavaScript truthiness of an optional \<open>FlexNumber\<close>: \<open>undefined\<close> and the number 0 are
  falsy, a percentage string is not.
\<close>

fun truthy :: "flexnum option \<Rightarrow> bool" where
  "truthy None = False"
| "truthy (Some (Pixels v)) = (v \<noteq> 0)"
| "truthy (Some (Percent p)) = True"

text \<open>
  \<open>fitToSize\<close>. A comparison with \<open>undefined\<close> is false, so a missing \<open>maxWidth\<close> leaves
  \<open>finalScaleX\<close> at the current scale. The method is private and called only from
  \<open>update\<close>, right after \<open>scale.set(scaleX, scaleY)\<close> with the numbers of the style: the
  scale it reads is finite, and on any other the model leaves the layout as it is.
\<close>

definition fitToSize :: "real \<Rightarrow> real \<Rightarrow> layout \<Rightarrow> layout" where
  "fitToSize parent_w parent_h l =
    (case (scale_x l, scale_y l) of
       (Fin currentScaleX, Fin currentScaleY) \<Rightarrow>
         (let st = layout_style l;
              layoutWidth = size__width l + marginLeft st + marginRight st;
              layoutHeight = size__height l + marginTop st + marginBottom st;
              maxWidthVal = map_option (\<lambda>v. getNumber v parent_w) (maxWidth st);
              maxHeightVal = map_option (\<lambda>v. getNumber v parent_h) (maxHeight st);
              finalScaleX =
                (case maxWidthVal of
                   Some m \<Rightarrow> if layoutWidth * currentScaleX > m then jdiv m layoutWidth
                             else Fin currentScaleX
                 | None \<Rightarrow> Fin currentScaleX);
              finalScaleY =
                (case maxHeightVal of
                   Some m \<Rightarrow> if layoutHeight * currentScaleY > m then jdiv m layoutHeight
                             else Fin currentScaleY
                 | None \<Rightarrow> Fin currentScaleY);
              applied = jmin finalScaleX finalScaleY
          in l\<lparr>scale_x := applied, scale_y := applied\<rparr>)
     | _ \<Rightarrow> l)"

text \<open>
  \<open>update\<close>, in the order of the method. \<open>wrapInnerText\<close> is the side effect of the
  \<open>innerText\<close> case of the width switch on the text object. \<open>computedWidth\<close> and
  \<open>computedHeight\<close> are \<open>finalWidth\<close> and \<open>finalHeight\<close> as they stand when the method
  tests them for zero: resolved from the style, less the parent's padding, not below 0.
\<close>

definition wrapInnerText :: "(Text \<Rightarrow> real) \<Rightarrow> real \<Rightarrow> layout \<Rightarrow> layout" where
  "wrapInnerText text_width parent_w l =
    (let st = layout_style l in
     case (width st, sizeControlType l, content_children l) of
       (Auto, innerText, [TextChild t]) \<Rightarrow>
         let t1 = (if \<not> wordWrap t \<and>
                      text_width t \<ge> parent_w - paddingLeft st - paddingRight st
                   then t\<lparr>wordWrap := True\<rparr> else t);
             t2 = (if wordWrap t1
                   then t1\<lparr>wordWrapWidth := parent_w - paddingLeft st - paddingRight st\<rparr>
                   else t1)
         in l\<lparr>content_children := [TextChild t2]\<rparr>
     | _ \<Rightarrow> l)"

definition computedWidth :: "(Text \<Rightarrow> real) \<Rightarrow> real \<Rightarrow> layout \<Rightarrow> real" where
  "computedWidth text_width parent_w l =
    (let st = layout_style l;
         finalWidth0 =
           (case width st of
              Auto \<Rightarrow>
                (case (sizeControlType l, content_children l, background st) of
                   (innerText, [TextChild t], _) \<Rightarrow> text_width t + paddingRight st + paddingLeft st
                 | (stickToBackground, _, Graphic w h) \<Rightarrow> w
                 | _ \<Rightarrow> parent_w)
            | Fixed v \<Rightarrow> getNumber v parent_w);
         finalWidth1 = (case parent_padding l of Some p \<Rightarrow> finalWidth0 - p | None \<Rightarrow> finalWidth0)
     in if finalWidth1 < 0 then 0 else finalWidth1)"

definition computedHeight :: "(Text \<Rightarrow> real) \<Rightarrow> real \<Rightarrow> layout \<Rightarrow> real" where
  "computedHeight text_height parent_h l =
    (let st = layout_style l;
         finalHeight0 =
           (case height st of
              Auto \<Rightarrow>
                (case (sizeControlType l, content_children l, background st) of
                   (innerText, [TextChild t], _) \<Rightarrow> text_height t + paddingBottom st + paddingTop st
                 | (stickToBackground, _, Graphic w h) \<Rightarrow> h
                 | _ \<Rightarrow> 0)
            | Fixed v \<Rightarrow> getNumber v parent_h);
         finalHeight1 = (case parent_padding l of Some p \<Rightarrow> finalHeight0 - p | None \<Rightarrow> finalHeight0)
     in if finalHeight1 < 0 then 0 else finalHeight1)"

text \<open>
  The result of \<open>update\<close> is the layout after the call and, when the align controller
  threw, the error: an exception leaves what was written before it in place.
  \<open>updateBG\<close> and \<open>updateMask\<close> redraw and do not touch the fields of the model. The
  align controller is the \<open>FlexAlignController\<close> above, with the layout as its root.
\<close>

definition SizeController_update ::
  "(Text \<Rightarrow> real) \<Rightarrow> (Text \<Rightarrow> real) \<Rightarrow> real \<Rightarrow> real \<Rightarrow> layout \<Rightarrow> error option \<times> layout" where
  "SizeController_update text_width text_height parent_w parent_h l =
    (let st = layout_style l;
         l0 = l\<lparr>parentWidth := parent_w, parentHeight := parent_h\<rparr>
     in
     if width st = Fixed (Pixels 0) \<or> height st = Fixed (Pixels 0) then
       (None, l0\<lparr>visible := False\<rparr>)
     else
       let l1 = wrapInnerText text_width parent_w l0;
           finalWidth = computedWidth text_width parent_w l1;
           finalHeight = computedHeight text_height parent_h l1
       in
       if finalWidth = 0 \<or> finalHeight = 0 then
         (None, l1\<lparr>visible := False\<rparr>)
       else
         let l2 = l1\<lparr>size__width := finalWidth, size__height := finalHeight,
                     scale_x := Fin (scaleX st), scale_y := Fin (scaleY st)\<rparr>;
             l3 = (if truthy (maxWidth st) \<or> truthy (maxHeight st)
                   then fitToSize parent_w parent_h l2 else l2)
         in case FlexAlignController_update (size__width l3) (flexDirection st) (flexWrap st)
                   (justifyContent st) (align_items l3) of
              Inl e \<Rightarrow> (Some e, l3)
            | Inr placed \<Rightarrow> (None, l3\<lparr>align_items := placed\<rparr>))"

text \<open>
  \<open>update\<close> gets as far as the fit step and the alignment exactly when neither of its
  two early returns is taken.
\<close>

definition reachesAlign :: "(Text \<Rightarrow> real) \<Rightarrow> (Text \<Rightarrow> real) \<Rightarrow> real \<Rightarrow> real \<Rightarrow> layout \<Rightarrow> bool" where
  "reachesAlign text_width text_height parent_w parent_h l =
    (let l1 = wrapInnerText text_width parent_w (l\<lparr>parentWidth := parent_w, parentHeight := parent_h\<rparr>)
     in width (layout_style l) \<noteq> Fixed (Pixels 0) \<and> height (layout_style l) \<noteq> Fixed (Pixels 0) \<and>
        computedWidth text_width parent_w l1 \<noteq> 0 \<and> computedHeight text_height parent_h l1 \<noteq> 0)"

text \<open>
  Modelled from the spec: the walk over the tree of layouts (\<open>Layout.resize\<close> of the
  version that owns a \<open>SizeController\<close> is not among the sources). The specification
  gives: the pass is a plain recursive tree walk; the parent sizes itself; the flex
  positioning of a container's children runs once the container's own size is final and
  before the walk enters the children, so it uses the size each child has at that moment;
  then every child is resolved against the parent's resolved width and height; a node of
  size zero stops the walk for its subtree, and so does a configuration error.

  A tree is a layout with its child layouts. The items of the layout's align controller
  are the children: item \<open>i\<close> holds the position of child \<open>i\<close>, and its width and height
  are read from the child (\<open>sized_items\<close>).
\<close>

datatype tree = Tree layout "tree list"

fun layout_of :: "tree \<Rightarrow> layout" where
  "layout_of (Tree l children) = l"

fun sized_items :: "tree list \<Rightarrow> item list \<Rightarrow> item list" where
  "sized_items (child # children) (it # its) =
     it\<lparr>child_width := size__width (layout_of child), child_height := size__height (layout_of child)\<rparr> #
     sized_items children its"
| "sized_items _ _ = []"

fun resolve :: "(Text \<Rightarrow> real) \<Rightarrow> (Text \<Rightarrow> real) \<Rightarrow> real \<Rightarrow> real \<Rightarrow> tree \<Rightarrow> tree" where
  "resolve text_width text_height availableWidth availableHeight (Tree l children) =
    (let l_in = l\<lparr>align_items := sized_items children (align_items l)\<rparr>;
         r = SizeController_update text_width text_height availableWidth availableHeight l_in
     in if fst r = None \<and> reachesAlign text_width text_height availableWidth availableHeight l_in
        then Tree (snd r)
               (map (resolve text_width text_height (size__width (snd r)) (size__height (snd r)))
                  children)
        else Tree (snd r) children)"

text \<open>
  The fit-to-size step in the words of the specification, to compare \<open>fitToSize\<close> with:
  the boxes are the scaled size plus the margins, a fit scale is a candidate only when
  its box exceeds the maximum, and the smaller candidate is applied to both axes.
\<close>

definition spec_fit_scale :: "real \<Rightarrow> real \<Rightarrow> layout \<Rightarrow> real" where
  "spec_fit_scale parent_w parent_h l =
    (let st = layout_style l;
         boxWidth = size__width l * scaleX st + marginLeft st + marginRight st;
         boxHeight = size__height l * scaleY st + marginTop st + marginBottom st;
         candidateX =
           (case maxWidth st of
              Some m \<Rightarrow> if boxWidth > getNumber m parent_w then getNumber m parent_w / boxWidth
                        else scaleX st
            | None \<Rightarrow> scaleX st);
         candidateY =
           (case maxHeight st of
              Some m \<Rightarrow> if boxHeight > getNumber m parent_h then getNumber m parent_h / boxHeight
                        else scaleY st
            | None \<Rightarrow> scaleY st)
     in min candidateX candidateY)"

text \<open>
  A layout to run the examples on: a block of 300 by 100 with scale 1, no margin, no
  padding, no maximum size, no content, no parent layout and no items.
\<close>

definition plain_style :: style where
  "plain_style =
    \<lparr>width = Fixed (Pixels 300), height = Fixed (Pixels 100),
     maxWidth = None, maxHeight = None, scaleX = 1, scaleY = 1,
     background = NoBackground, display = ''block'',
     paddingLeft = 0, paddingRight = 0, paddingTop = 0, paddingBottom = 0,
     marginLeft = 0, marginRight = 0, marginTop = 0, marginBottom = 0,
     flexDirection = ''row'', flexWrap = ''nowrap'', justifyContent = ''start''\<rparr>"

definition plain_layout :: layout where
  "plain_layout =
    \<lparr>layout_style = plain_style, content_children = [], parent_padding = None,
     visible = True, size__width = 300, size__height = 100,
     scale_x = Fin 1, scale_y = Fin 1, parentWidth = 0, parentHeight = 0,
     align_items = []\<rparr>"

text \<open>
  A tree to run the walk on: a parent as wide as the available space with two children
  of half its width, in a row, as a pass at an available size of 200 by 100 leaves it
  (the parent 200 wide, the children 100 wide at \<open>x = 0\<close> and \<open>x = 100\<close>).
\<close>

definition half_child :: tree where
  "half_child =
     Tree (plain_layout\<lparr>layout_style := plain_style\<lparr>width := Fixed (Percent 50)\<rparr>,
             size__width := 100, size__height := 100, parentWidth := 200, parentHeight := 100\<rparr>) []"

definition resized_tree :: tree where
  "resized_tree =
     Tree (plain_layout\<lparr>layout_style := plain_style\<lparr>width := Fixed (Percent 100)\<rparr>,
             size__width := 200, size__height := 100, parentWidth := 200, parentHeight := 100,
             align_items :=
               [\<lparr>child_x = Fin 0, child_y = Fin 0, child_width = 100, child_height = 100\<rparr>,
                \<lparr>child_x = Fin 100, child_y = Fin 0, child_width = 100, child_height = 100\<rparr>]\<rparr>)
       [half_child, half_child]"

section \<open>The column algorithm\<close>

lemma column_from_length: "length (column_from y items) = length items"
  by (induction items arbitrary: y) simp_all

lemma column_from_nth:
  "i < length items \<Longrightarrow>
   column_from y items ! i =
     (items ! i)\<lparr>child_y := Fin (y + sum_list (map child_height (take i items)))\<rparr>"
proof (induction items arbitrary: y i)
  case Nil
  then show ?case by simp
next
  case (Cons child rest)
  show ?case
  proof (cases i)
    case 0
    then show ?thesis by simp
  next
    case (Suc j)
    with Cons.prems have "j < length rest" by simp
    from Cons.IH [OF this] Suc show ?thesis by (simp add: add.assoc)
  qed
qed

text \<open>
  C7, as the code has it. \<open>alignFlexColumn\<close> gives child \<open>i\<close> the sum of the heights of
  the children before it as its \<open>y\<close> (so the first child gets 0), with no wrapping and
  no justification. It assigns nothing else: the \<open>x\<close> of every child, like its width
  and height, is what it was before the call.
\<close>

theorem alignFlexColumn_positions:
  "length (alignFlexColumn items) = length items \<and>
   (\<forall>i < length items.
      alignFlexColumn items ! i =
        (items ! i)\<lparr>child_y := Fin (sum_list (map child_height (take i items)))\<rparr>)"
  by (simp add: alignFlexColumn_def column_from_length column_from_nth)

theorem alignFlexColumn_positions_witness:
  "alignFlexColumn
     [\<lparr>child_x = Fin 3, child_y = Fin 9, child_width = 10, child_height = 20\<rparr>,
      \<lparr>child_x = Fin 4, child_y = Fin 9, child_width = 10, child_height = 30\<rparr>] ! 1
   = \<lparr>child_x = Fin 4, child_y = Fin 20, child_width = 10, child_height = 30\<rparr>"
  using alignFlexColumn_positions
    [of "[\<lparr>child_x = Fin 3, child_y = Fin 9, child_width = 10, child_height = 20\<rparr>,
          \<lparr>child_x = Fin 4, child_y = Fin 9, child_width = 10, child_height = 30\<rparr>]"]
  by simp

text \<open>
  C7 as the specification states it asks for \<open>x = 0\<close> on every child. A child that
  enters the column algorithm at \<open>x = 5\<close> leaves it at \<open>x = 5\<close>.
\<close>

theorem alignFlexColumn_x_counterexample:
  "child_x (alignFlexColumn
     [\<lparr>child_x = Fin 5, child_y = Fin 0, child_width = 10, child_height = 20\<rparr>] ! 0) \<noteq> Fin 0"
  by (simp add: alignFlexColumn_def)

section \<open>The row algorithm without wrap\<close>

lemma foldl_add_width:
  "foldl (\<lambda>acc child. acc + child_width child) a items = a + sum_list (map child_width items)"
  by (induction items arbitrary: a) simp_all

lemma forEach_x_length: "length (forEach_x put nxt x0 items) = length items"
  by (induction items arbitrary: x0) simp_all

lemma forEach_x_between_nth:
  "i < length items \<Longrightarrow>
   forEach_x (\<lambda>x child. x)
             (\<lambda>x child. jadd x (jadd (Fin (child_width child)) (Fin gap))) (Fin a) items ! i =
     (items ! i)\<lparr>child_x := Fin (a + sum_list (map child_width (take i items)) + real i * gap)\<rparr>"
proof (induction items arbitrary: a i)
  case Nil
  then show ?case by simp
next
  case (Cons child rest)
  show ?case
  proof (cases i)
    case 0
    then show ?thesis by simp
  next
    case (Suc j)
    with Cons.prems have "j < length rest" by simp
    from Cons.IH [OF this, of "a + (child_width child + gap)"] Suc show ?thesis
      by (simp add: algebra_simps)
  qed
qed

text \<open>
  C6. With \<open>space-between\<close> and no wrap, child \<open>i\<close> of \<open>n \<ge> 2\<close> children is put at the
  sum of the widths before it plus \<open>i\<close> gaps of \<open>(rootWidth - totalWidth) / (n - 1)\<close>:
  the first child at 0, and between a child's right edge and the next child one gap.
  A single child is put at 0, as \<open>start\<close> puts it: the quotient by \<open>n - 1 = 0\<close> is only
  added to the running \<open>x\<close> after the child has its place, and nothing raises. Three
  children of width 50 in a container of width 200 are put at 0, 75 and 150.
\<close>

theorem alignNowrap_space_between:
  "length (alignNowrap rootWidth ''space-between'' items) = length items \<and>
   (length items = 1 \<longrightarrow>
      alignNowrap rootWidth ''space-between'' items = [(items ! 0)\<lparr>child_x := Fin 0\<rparr>]) \<and>
   (2 \<le> length items \<longrightarrow>
      (\<forall>i < length items.
         alignNowrap rootWidth ''space-between'' items ! i =
           (items ! i)\<lparr>child_x :=
              Fin (sum_list (map child_width (take i items)) +
                   real i * ((rootWidth - sum_list (map child_width items)) / (real (length items) - 1)))\<rparr>)) \<and>
   (child_width a = 50 \<and> child_width b = 50 \<and> child_width c = 50 \<longrightarrow>
      map child_x (alignNowrap 200 ''space-between'' [a, b, c]) = [Fin 0, Fin 75, Fin 150])"
proof (intro conjI impI allI)
  show "length (alignNowrap rootWidth ''space-between'' items) = length items"
    by (simp add: alignNowrap_def Let_def forEach_x_length)
next
  assume "length items = 1"
  then obtain child where "items = [child]"
    by (cases items) simp_all
  then show "alignNowrap rootWidth ''space-between'' items = [(items ! 0)\<lparr>child_x := Fin 0\<rparr>]"
    by (simp add: alignNowrap_def Let_def)
next
  fix i
  assume n: "2 \<le> length items" and i: "i < length items"
  from n have "real (length items) - 1 \<noteq> 0" by simp
  then have d: "jdiv (rootWidth - sum_list (map child_width items)) (real (length items) - 1) =
     Fin ((rootWidth - sum_list (map child_width items)) / (real (length items) - 1))"
    by (simp add: jdiv_def)
  show "alignNowrap rootWidth ''space-between'' items ! i =
           (items ! i)\<lparr>child_x :=
              Fin (sum_list (map child_width (take i items)) +
                   real i * ((rootWidth - sum_list (map child_width items)) / (real (length items) - 1)))\<rparr>"
    using forEach_x_between_nth [OF i, of "(rootWidth - sum_list (map child_width items)) / (real (length items) - 1)" 0]
    by (simp add: alignNowrap_def Let_def foldl_add_width d)
next
  assume "child_width a = 50 \<and> child_width b = 50 \<and> child_width c = 50"
  then show "map child_x (alignNowrap 200 ''space-between'' [a, b, c]) = [Fin 0, Fin 75, Fin 150]"
    by (simp add: alignNowrap_def Let_def jdiv_def)
qed

theorem alignNowrap_space_between_witness:
  "map child_x (alignNowrap 200 ''space-between''
     [\<lparr>child_x = Fin 9, child_y = Fin 0, child_width = 50, child_height = 10\<rparr>,
      \<lparr>child_x = Fin 9, child_y = Fin 0, child_width = 50, child_height = 10\<rparr>,
      \<lparr>child_x = Fin 9, child_y = Fin 0, child_width = 50, child_height = 10\<rparr>])
   = [Fin 0, Fin 75, Fin 150]
   \<and> child_x (alignNowrap 200 ''space-between''
     [\<lparr>child_x = Fin 9, child_y = Fin 0, child_width = 50, child_height = 10\<rparr>,
      \<lparr>child_x = Fin 9, child_y = Fin 0, child_width = 50, child_height = 10\<rparr>,
      \<lparr>child_x = Fin 9, child_y = Fin 0, child_width = 50, child_height = 10\<rparr>] ! 2) = Fin 150
   \<and> alignNowrap 80 ''space-between''
        [\<lparr>child_x = Fin 9, child_y = Fin 0, child_width = 50, child_height = 10\<rparr>]
      = [\<lparr>child_x = Fin 0, child_y = Fin 0, child_width = 50, child_height = 10\<rparr>]"
proof -
  let ?c = "\<lparr>child_x = Fin 9, child_y = Fin 0, child_width = 50, child_height = 10\<rparr>"
  have w: "child_width ?c = 50 \<and> child_width ?c = 50 \<and> child_width ?c = 50"
    by simp
  have n3: "2 \<le> length [?c, ?c, ?c]" and i2: "2 < length [?c, ?c, ?c]" and n1: "length [?c] = 1"
    by simp_all
  note three = alignNowrap_space_between [of 200 "[?c, ?c, ?c]" ?c ?c ?c]
  note one = alignNowrap_space_between [of 80 "[?c]" ?c ?c ?c]
  from three w have a: "map child_x (alignNowrap 200 ''space-between'' [?c, ?c, ?c]) =
      [Fin 0, Fin 75, Fin 150]"
    by blast
  from three n3 i2 have "alignNowrap 200 ''space-between'' [?c, ?c, ?c] ! 2 =
      ([?c, ?c, ?c] ! 2)\<lparr>child_x :=
              Fin (sum_list (map child_width (take 2 [?c, ?c, ?c])) +
                   real 2 * ((200 - sum_list (map child_width [?c, ?c, ?c])) / (real (length [?c, ?c, ?c]) - 1)))\<rparr>"
    by blast
  then have b: "child_x (alignNowrap 200 ''space-between'' [?c, ?c, ?c] ! 2) = Fin 150"
    by simp
  from one n1 have "alignNowrap 80 ''space-between'' [?c] = [([?c] ! 0)\<lparr>child_x := Fin 0\<rparr>]"
    by blast
  then have c: "alignNowrap 80 ''space-between'' [?c] =
      [\<lparr>child_x = Fin 0, child_y = Fin 0, child_width = 50, child_height = 10\<rparr>]"
    by simp
  from a b c show ?thesis by simp
qed

section \<open>The row algorithm with wrap\<close>

lemma spec_place_from_snoc:
  "spec_place_from x y (line @ [child]) =
     spec_place_from x y line @
       [child\<lparr>child_x := Fin (x + sum_list (map child_width line)), child_y := Fin y\<rparr>]"
  by (induction line arbitrary: x) (simp_all add: add.assoc)

lemma spec_line_height_snoc:
  "spec_line_height (line @ [child]) =
     (if child_height child > spec_line_height line then child_height child
      else spec_line_height line)"
  by (simp add: spec_line_height_def max_def)

lemma spec_line_height_single:
  "spec_line_height [child] = (if child_height child > 0 then child_height child else 0)"
  by (simp add: spec_line_height_def max_def)

lemma wrapStart_from_spec:
  "x = sum_list (map child_width line) \<Longrightarrow>
   spec_place_lines y (spec_lines_from rootWidth x line items) =
     spec_place_from 0 y line @ wrapStart_from rootWidth (spec_line_height line) x y items"
proof (induction items arbitrary: x y line)
  case Nil
  then show ?case by simp
next
  case (Cons child rest)
  show ?case
  proof (cases "x + child_width child > rootWidth")
    case True
    have "child_width child = sum_list (map child_width [child])" by simp
    from Cons.IH [OF this, of "y + spec_line_height line"] True show ?thesis
      by (simp add: spec_line_height_single)
  next
    case False
    from Cons.prems have "x + child_width child = sum_list (map child_width (line @ [child]))"
      by simp
    from Cons.IH [OF this, of y] False Cons.prems show ?thesis
      by (simp add: spec_place_from_snoc spec_line_height_snoc)
  qed
qed

text \<open>
  C2. \<open>alignRowWrapStart\<close> places the children as the greedy packing into lines says:
  a child opens a new line exactly when the cumulative \<open>x\<close> plus its width exceeds the
  container width, the cumulative \<open>x\<close> restarts at that child's width, and the new line
  lies lower by the largest child height of the line it closes. In particular four
  children of width 60 and positive heights in a container of width 100 each stand on a
  line of their own, at \<open>x = 0\<close>, and \<open>y\<close> grows from child to child by the height of
  the child before.
\<close>

theorem alignRowWrapStart_greedy_lines:
  "alignRowWrapStart rootWidth items =
     spec_place_lines 0 (spec_lines_from rootWidth 0 [] items) \<and>
   (child_width a = 60 \<and> child_width b = 60 \<and> child_width c = 60 \<and> child_width d = 60 \<and>
    0 < child_height a \<and> 0 < child_height b \<and> 0 < child_height c \<and> 0 < child_height d \<longrightarrow>
      map (\<lambda>child. (child_x child, child_y child)) (alignRowWrapStart 100 [a, b, c, d]) =
        [(Fin 0, Fin 0),
         (Fin 0, Fin (child_height a)),
         (Fin 0, Fin (child_height a + child_height b)),
         (Fin 0, Fin (child_height a + child_height b + child_height c))])"
proof (intro conjI impI)
  have "(0::real) = sum_list (map child_width [])" by simp
  from wrapStart_from_spec [OF this, of 0 rootWidth items]
  show "alignRowWrapStart rootWidth items =
     spec_place_lines 0 (spec_lines_from rootWidth 0 [] items)"
    by (simp add: alignRowWrapStart_def spec_line_height_def)
next
  assume "child_width a = 60 \<and> child_width b = 60 \<and> child_width c = 60 \<and> child_width d = 60 \<and>
    0 < child_height a \<and> 0 < child_height b \<and> 0 < child_height c \<and> 0 < child_height d"
  then show "map (\<lambda>child. (child_x child, child_y child)) (alignRowWrapStart 100 [a, b, c, d]) =
        [(Fin 0, Fin 0),
         (Fin 0, Fin (child_height a)),
         (Fin 0, Fin (child_height a + child_height b)),
         (Fin 0, Fin (child_height a + child_height b + child_height c))]"
    by (simp add: alignRowWrapStart_def)
qed

theorem alignRowWrapStart_greedy_lines_witness:
  "map (\<lambda>child. (child_x child, child_y child))
     (alignRowWrapStart 100
        [\<lparr>child_x = Fin 9, child_y = Fin 9, child_width = 60, child_height = 10\<rparr>,
         \<lparr>child_x = Fin 9, child_y = Fin 9, child_width = 60, child_height = 20\<rparr>,
         \<lparr>child_x = Fin 9, child_y = Fin 9, child_width = 60, child_height = 30\<rparr>,
         \<lparr>child_x = Fin 9, child_y = Fin 9, child_width = 60, child_height = 40\<rparr>]) =
   [(Fin 0, Fin 0), (Fin 0, Fin 10), (Fin 0, Fin 30), (Fin 0, Fin 60)]"
proof -
  let ?a = "\<lparr>child_x = Fin 9, child_y = Fin 9, child_width = 60, child_height = 10\<rparr>"
  let ?b = "\<lparr>child_x = Fin 9, child_y = Fin 9, child_width = 60, child_height = 20\<rparr>"
  let ?c = "\<lparr>child_x = Fin 9, child_y = Fin 9, child_width = 60, child_height = 30\<rparr>"
  let ?d = "\<lparr>child_x = Fin 9, child_y = Fin 9, child_width = 60, child_height = 40\<rparr>"
  have h: "child_width ?a = 60 \<and> child_width ?b = 60 \<and> child_width ?c = 60 \<and> child_width ?d = 60 \<and>
    0 < child_height ?a \<and> 0 < child_height ?b \<and> 0 < child_height ?c \<and> 0 < child_height ?d"
    by simp
  from alignRowWrapStart_greedy_lines [of 100 "[?a, ?b, ?c, ?d]" ?a ?b ?c ?d] h
  have "map (\<lambda>child. (child_x child, child_y child)) (alignRowWrapStart 100 [?a, ?b, ?c, ?d]) =
        [(Fin 0, Fin 0),
         (Fin 0, Fin (child_height ?a)),
         (Fin 0, Fin (child_height ?a + child_height ?b)),
         (Fin 0, Fin (child_height ?a + child_height ?b + child_height ?c))]"
    by blast
  then show ?thesis by simp
qed

section \<open>The alignment assigns positions only\<close>

lemma unplaced_x [simp]: "unplaced (child\<lparr>child_x := v\<rparr>) = unplaced child"
  by (simp add: unplaced_def)

lemma unplaced_y [simp]: "unplaced (child\<lparr>child_y := v\<rparr>) = unplaced child"
  by (simp add: unplaced_def)

lemma unplaced_width [simp]: "child_width (unplaced child) = child_width child"
  by (simp add: unplaced_def)

lemma unplaced_height [simp]: "child_height (unplaced child) = child_height child"
  by (simp add: unplaced_def)

lemma map_unplaced_update:
  "unplaced a = unplaced (items ! i) \<Longrightarrow> map unplaced (items[i := a]) = map unplaced items"
proof (induction items arbitrary: i)
  case Nil
  then show ?case by simp
next
  case (Cons child rest)
  then show ?case by (cases i) simp_all
qed

lemma map_unplaced_nth:
  "map unplaced items' = map unplaced items \<Longrightarrow> i < length items \<Longrightarrow>
   unplaced (items' ! i) = unplaced (items ! i)"
  by (metis length_map nth_map)

lemma unplaced_forEach_x: "map unplaced (forEach_x put nxt x0 items) = map unplaced items"
  by (induction items arbitrary: x0) simp_all

lemma unplaced_column_from: "map unplaced (column_from y0 items) = map unplaced items"
  by (induction items arbitrary: y0) simp_all

lemma unplaced_wrapStart_from:
  "map unplaced (wrapStart_from rootWidth m x0 y0 items) = map unplaced items"
  by (induction items arbitrary: m x0 y0) simp_all

lemma unplaced_add_x: "map unplaced (add_x offset items i) = map unplaced items"
  by (simp add: add_x_def map_unplaced_update)

lemma unplaced_foldl_add_x:
  "map unplaced (foldl (add_x offset) items idxs) = map unplaced items"
  by (induction idxs arbitrary: items) (simp_all add: unplaced_add_x)

lemma unplaced_between_body:
  "map unplaced (fst (between_body gap st i)) = map unplaced (fst st)"
  by (cases st) (simp add: between_body_def map_unplaced_update)

lemma unplaced_foldl_between:
  "map unplaced (fst (foldl (between_body gap) st idxs)) = map unplaced (fst st)"
  by (induction idxs arbitrary: st) (simp_all add: unplaced_between_body)

lemma unplaced_spread_body:
  "map unplaced (fst (spread_body lead gap st i)) = map unplaced (fst st)"
  by (cases st) (simp add: spread_body_def map_unplaced_update)

lemma unplaced_foldl_spread:
  "map unplaced (fst (foldl (spread_body lead gap) st idxs)) = map unplaced (fst st)"
  by (induction idxs arbitrary: st) (simp_all add: unplaced_spread_body)

lemma unplaced_wrap_step:
  assumes "\<And>x first idx its. map unplaced (fill x first idx its) = map unplaced its"
  shows "map unplaced (ws_items (wrap_step fill rootWidth s idx)) = map unplaced (ws_items s)"
proof -
  let ?child = "ws_items s ! idx"
  let ?items1 = "(ws_items s)[idx := ?child\<lparr>child_x := Fin (ws_x s), child_y := Fin (ws_y s)\<rparr>]"
  let ?items2 = "fill (ws_x s) (firstLineElementID s) idx ?items1"
  have one: "map unplaced ?items1 = map unplaced (ws_items s)"
    by (simp add: map_unplaced_update)
  have two: "map unplaced ?items2 = map unplaced (ws_items s)"
    using assms one by simp
  have three: "map unplaced (?items2[idx := (?items2 ! idx)\<lparr>child_x := Fin 0, child_y := v\<rparr>]) =
      map unplaced (ws_items s)" for v
    using two by (simp add: map_unplaced_update)
  show ?thesis
    by (simp add: wrap_step_def Let_def one three)
qed

lemma unplaced_foldl_wrap_step:
  assumes "\<And>x first idx its. map unplaced (fill x first idx its) = map unplaced its"
  shows "map unplaced (ws_items (foldl (wrap_step fill rootWidth) s idxs)) = map unplaced (ws_items s)"
  by (induction idxs arbitrary: s) (simp_all add: unplaced_wrap_step [OF assms])

lemma unplaced_wrap_loop:
  assumes "\<And>x first idx its. map unplaced (fill x first idx its) = map unplaced its"
  shows "map unplaced (ws_items (wrap_loop fill rootWidth items)) = map unplaced items"
  by (simp add: wrap_loop_def unplaced_foldl_wrap_step [OF assms])

lemma unplaced_alignRowWrapEnd: "map unplaced (alignRowWrapEnd rootWidth items) = map unplaced items"
  by (simp add: alignRowWrapEnd_def Let_def unplaced_foldl_add_x unplaced_wrap_loop)

lemma unplaced_alignRowWrapCenter: "map unplaced (alignRowWrapCenter rootWidth items) = map unplaced items"
  by (simp add: alignRowWrapCenter_def Let_def unplaced_foldl_add_x unplaced_wrap_loop)

lemma unplaced_alignRowWrapSpaceBetween:
  "map unplaced (alignRowWrapSpaceBetween rootWidth items) = map unplaced items"
  by (simp add: alignRowWrapSpaceBetween_def Let_def unplaced_foldl_between unplaced_wrap_loop)

lemma unplaced_alignRowWrapSpaceAround:
  "map unplaced (alignRowWrapSpaceAround rootWidth items) = map unplaced items"
  by (simp add: alignRowWrapSpaceAround_def Let_def unplaced_foldl_spread unplaced_wrap_loop)

lemma unplaced_alignRowWrapSpaceEvenly:
  "map unplaced (alignRowWrapSpaceEvenly rootWidth items) = map unplaced items"
  by (simp add: alignRowWrapSpaceEvenly_def Let_def unplaced_foldl_spread unplaced_wrap_loop)

lemma unplaced_alignRowWrap:
  "map unplaced (alignRowWrap rootWidth justify items) = map unplaced items"
  by (simp add: alignRowWrap_def alignRowWrapStart_def unplaced_wrapStart_from
      unplaced_alignRowWrapEnd unplaced_alignRowWrapCenter unplaced_alignRowWrapSpaceBetween
      unplaced_alignRowWrapSpaceAround unplaced_alignRowWrapSpaceEvenly)

lemma unplaced_alignNowrap:
  "map unplaced (alignNowrap rootWidth justify items) = map unplaced items"
  by (simp add: alignNowrap_def Let_def unplaced_forEach_x rev_map [symmetric])

lemma unplaced_reverse_step:
  "map unplaced (rs_items (reverse_step rootWidth s idx)) = map unplaced (rs_items s)"
  by (simp add: reverse_step_def Let_def map_unplaced_update)

lemma unplaced_foldl_reverse_step:
  "map unplaced (rs_items (foldl (reverse_step rootWidth) s idxs)) = map unplaced (rs_items s)"
  by (induction idxs arbitrary: s) (simp_all add: unplaced_reverse_step)

lemma unplaced_reverse_row_inner:
  "map unplaced (fst (foldl (\<lambda>(its, m) i.
                (its[i := (its ! i)\<lparr>child_y := Fin prevMax\<rparr>],
                 if m < child_height (its ! i) then child_height (its ! i) else m)) st row))
   = map unplaced (fst st)"
  by (induction row arbitrary: st) (simp_all add: map_unplaced_update split_beta)

lemma unplaced_reverse_row: "map unplaced (fst (reverse_row st row)) = map unplaced (fst st)"
  by (cases st) (simp add: reverse_row_def unplaced_reverse_row_inner)

lemma unplaced_foldl_reverse_row:
  "map unplaced (fst (foldl reverse_row st rws)) = map unplaced (fst st)"
  by (induction rws arbitrary: st) (simp_all add: unplaced_reverse_row)

lemma unplaced_alignRowReverse:
  "map unplaced (alignRowReverse rootWidth justify items) = map unplaced items"
  by (simp add: alignRowReverse_def Let_def unplaced_foldl_reverse_row unplaced_foldl_reverse_step)

lemma unplaced_alignFlexRow:
  "map unplaced (alignFlexRow rootWidth wrap justify items) = map unplaced items"
  by (simp add: alignFlexRow_def unplaced_alignRowReverse unplaced_alignRowWrap unplaced_alignNowrap)

lemma unplaced_alignFlexColumn: "map unplaced (alignFlexColumn items) = map unplaced items"
  by (simp add: alignFlexColumn_def unplaced_column_from)

lemma unplaced_update:
  "FlexAlignController_update rootWidth fd fw jc items = Inr placed \<Longrightarrow>
   map unplaced placed = map unplaced items"
  by (auto simp: FlexAlignController_update_def unplaced_alignFlexRow unplaced_alignFlexColumn
      rev_map [symmetric] split: if_splits)

lemma map_width_unplaced: "map child_width (map unplaced items) = map child_width items"
  by simp

lemma map_height_unplaced: "map child_height (map unplaced items) = map child_height items"
  by simp

text \<open>
  C10. Whatever the direction, the wrap mode and the justification, an alignment that
  returns leaves every child as it was but for \<open>x\<close> and \<open>y\<close>: same children in the same
  order, same widths, same heights.
\<close>

theorem align_assigns_positions_only:
  "FlexAlignController_update rootWidth direction wrap justify items = Inr placed \<Longrightarrow>
   map unplaced placed = map unplaced items \<and>
   map child_width placed = map child_width items \<and>
   map child_height placed = map child_height items"
proof -
  assume "FlexAlignController_update rootWidth direction wrap justify items = Inr placed"
  then have u: "map unplaced placed = map unplaced items"
    by (rule unplaced_update)
  from u map_width_unplaced [of placed] map_width_unplaced [of items]
  have w: "map child_width placed = map child_width items" by simp
  from u map_height_unplaced [of placed] map_height_unplaced [of items]
  have h: "map child_height placed = map child_height items" by simp
  from u w h show ?thesis by simp
qed


theorem align_assigns_positions_only_witness:
  "FlexAlignController_update 100 ''row'' ''wrap'' ''center''
     [\<lparr>child_x = Fin 9, child_y = Fin 9, child_width = 60, child_height = 10\<rparr>,
      \<lparr>child_x = Fin 9, child_y = Fin 9, child_width = 70, child_height = 20\<rparr>]
   = Inr [\<lparr>child_x = Fin 20, child_y = Fin 0, child_width = 60, child_height = 10\<rparr>,
          \<lparr>child_x = Fin 15, child_y = Fin 10, child_width = 70, child_height = 20\<rparr>]
   \<and> map child_width
        [\<lparr>child_x = Fin 20, child_y = Fin 0, child_width = 60, child_height = 10\<rparr>,
         \<lparr>child_x = Fin 15, child_y = Fin 10, child_width = 70, child_height = 20\<rparr>] = [60, 70]"
proof -
  let ?items = "[\<lparr>child_x = Fin 9, child_y = Fin 9, child_width = 60, child_height = 10\<rparr>,
      \<lparr>child_x = Fin 9, child_y = Fin 9, child_width = 70, child_height = 20\<rparr>]"
  let ?placed = "[\<lparr>child_x = Fin 20, child_y = Fin 0, child_width = 60, child_height = 10\<rparr>,
          \<lparr>child_x = Fin 15, child_y = Fin 10, child_width = 70, child_height = 20\<rparr>]"
  have run: "FlexAlignController_update 100 ''row'' ''wrap'' ''center'' ?items = Inr ?placed"
    by (simp add: FlexAlignController_update_def alignFlexRow_def alignRowWrap_def
        alignRowWrapCenter_def wrap_loop_def wrap_step_def add_x_def Let_def upt_rec)
  from align_assigns_positions_only [OF run]
  have "map child_width ?placed = map child_width ?items" by blast
  with run show ?thesis by simp
qed

section \<open>Stretch\<close>

text \<open>
  C9, as the code has it. With \<open>justifyContent = stretch\<close> both row algorithms, without
  wrap and with wrap, assign nothing: every child keeps the position it had.
\<close>

theorem stretch_assigns_nothing:
  "alignNowrap rootWidth ''stretch'' items = items \<and>
   alignRowWrap rootWidth ''stretch'' items = items"
  by (simp add: alignNowrap_def alignRowWrap_def Let_def)

text \<open>
  C9 as the specification states it: \<open>stretch\<close> places the children as \<open>start\<close> does. Two
  children of width 50 that stand at \<open>x = 0\<close> are put at 0 and 50 by \<open>start\<close> and are
  both left at 0 by \<open>stretch\<close>, with and without wrap.
\<close>

theorem stretch_is_not_start_counterexample:
  "alignNowrap 100 ''stretch''
     [\<lparr>child_x = Fin 0, child_y = Fin 0, child_width = 50, child_height = 10\<rparr>,
      \<lparr>child_x = Fin 0, child_y = Fin 0, child_width = 50, child_height = 10\<rparr>]
   \<noteq> alignNowrap 100 ''start''
     [\<lparr>child_x = Fin 0, child_y = Fin 0, child_width = 50, child_height = 10\<rparr>,
      \<lparr>child_x = Fin 0, child_y = Fin 0, child_width = 50, child_height = 10\<rparr>]
   \<and> alignRowWrap 100 ''stretch''
     [\<lparr>child_x = Fin 0, child_y = Fin 0, child_width = 50, child_height = 10\<rparr>,
      \<lparr>child_x = Fin 0, child_y = Fin 0, child_width = 50, child_height = 10\<rparr>]
   \<noteq> alignRowWrap 100 ''start''
     [\<lparr>child_x = Fin 0, child_y = Fin 0, child_width = 50, child_height = 10\<rparr>,
      \<lparr>child_x = Fin 0, child_y = Fin 0, child_width = 50, child_height = 10\<rparr>]"
  by (simp add: alignNowrap_def alignRowWrap_def alignRowWrapStart_def Let_def)

section \<open>The anchor resolver\<close>

text \<open>
  C8, as the code has it. \<open>float\<close> assigns only the coordinates its case names and
  leaves the others as they were: with no \<open>float\<close> style, and with \<open>left\<close>, \<open>top\<close> and
  \<open>leftTop\<close>, the layout stays where it was; \<open>right\<close> and \<open>rightTop\<close> put the right
  edges together, \<open>bottom\<close> and \<open>leftBottom\<close> the bottom edges, \<open>rightBottom\<close> both;
  \<open>center\<close> centres on both axes, \<open>centerTop\<close> and \<open>centerBottom\<close> horizontally,
  \<open>centerLeft\<close> and \<open>centerRight\<close> vertically. A layout of 50 by 50 in a parent of 200
  by 100 with \<open>rightBottom\<close> ends at (150, 50).
\<close>

theorem Layout_float_anchors:
  "(float_style l = None \<or> float_style l = Some ''left'' \<or> float_style l = Some ''top'' \<or>
    float_style l = Some ''leftTop'' \<longrightarrow> Layout_float w h l = l) \<and>
   (float_style l = Some ''right'' \<or> float_style l = Some ''rightTop'' \<longrightarrow>
      Layout_float w h l = l\<lparr>pos_x := w - size_width l\<rparr>) \<and>
   (float_style l = Some ''bottom'' \<or> float_style l = Some ''leftBottom'' \<longrightarrow>
      Layout_float w h l = l\<lparr>pos_y := h - size_height l\<rparr>) \<and>
   (float_style l = Some ''rightBottom'' \<longrightarrow>
      Layout_float w h l = l\<lparr>pos_x := w - size_width l, pos_y := h - size_height l\<rparr>) \<and>
   (float_style l = Some ''center'' \<longrightarrow>
      Layout_float w h l = l\<lparr>pos_x := w / 2 - size_width l / 2, pos_y := h / 2 - size_height l / 2\<rparr>) \<and>
   (float_style l = Some ''centerTop'' \<longrightarrow>
      Layout_float w h l = l\<lparr>pos_x := w / 2 - size_width l / 2\<rparr>) \<and>
   (float_style l = Some ''centerBottom'' \<longrightarrow>
      Layout_float w h l = l\<lparr>pos_x := w / 2 - size_width l / 2, pos_y := h - size_height l\<rparr>) \<and>
   (float_style l = Some ''centerLeft'' \<longrightarrow>
      Layout_float w h l = l\<lparr>pos_y := h / 2 - size_height l / 2\<rparr>) \<and>
   (float_style l = Some ''centerRight'' \<longrightarrow>
      Layout_float w h l = l\<lparr>pos_x := w - size_width l, pos_y := h / 2 - size_height l / 2\<rparr>) \<and>
   (size_width l = 50 \<and> size_height l = 50 \<and> float_style l = Some ''rightBottom'' \<longrightarrow>
      pos_x (Layout_float 200 100 l) = 150 \<and> pos_y (Layout_float 200 100 l) = 50)"
  by (auto simp: Layout_float_def)

theorem Layout_float_anchors_witness:
  "Layout_float 200 100
     \<lparr>pos_x = 0, pos_y = 0, size_width = 50, size_height = 50, float_style = Some ''rightBottom''\<rparr>
   = \<lparr>pos_x = 150, pos_y = 50, size_width = 50, size_height = 50, float_style = Some ''rightBottom''\<rparr>
   \<and> Layout_float 200 100
     \<lparr>pos_x = 0, pos_y = 0, size_width = 50, size_height = 50, float_style = None\<rparr>
   = \<lparr>pos_x = 0, pos_y = 0, size_width = 50, size_height = 50, float_style = None\<rparr>"
  using Layout_float_anchors
    [of "\<lparr>pos_x = 0, pos_y = 0, size_width = 50, size_height = 50, float_style = Some ''rightBottom''\<rparr>" 200 100]
    Layout_float_anchors
    [of "\<lparr>pos_x = 0, pos_y = 0, size_width = 50, size_height = 50, float_style = None\<rparr>" 200 100]
  by simp

text \<open>
  C8 as the specification states it: the default anchor yields (0, 0). A layout with no
  \<open>float\<close> style that stands at (7, 9), where the flex alignment of its parent may have
  put it, is left at (7, 9).
\<close>

theorem Layout_float_default_counterexample:
  "(pos_x (Layout_float 200 100
      \<lparr>pos_x = 7, pos_y = 9, size_width = 50, size_height = 50, float_style = None\<rparr>),
    pos_y (Layout_float 200 100
      \<lparr>pos_x = 7, pos_y = 9, size_width = 50, size_height = 50, float_style = None\<rparr>))
   \<noteq> (0, 0)"
  by (simp add: Layout_float_def)

section \<open>What the steps of the size controller leave alone\<close>

lemma wrapInnerText_fields:
  "visible (wrapInnerText tw pw l) = visible l"
  "size__width (wrapInnerText tw pw l) = size__width l"
  "size__height (wrapInnerText tw pw l) = size__height l"
  "scale_x (wrapInnerText tw pw l) = scale_x l"
  "scale_y (wrapInnerText tw pw l) = scale_y l"
  "align_items (wrapInnerText tw pw l) = align_items l"
  "layout_style (wrapInnerText tw pw l) = layout_style l"
  "parent_padding (wrapInnerText tw pw l) = parent_padding l"
  "parentWidth (wrapInnerText tw pw l) = parentWidth l"
  "parentHeight (wrapInnerText tw pw l) = parentHeight l"
  by (simp_all add: wrapInnerText_def Let_def split: dimension.splits SizeControl.splits
      list.splits content_child.splits)

lemma wrapInnerText_fixed:
  "width (layout_style l) = Fixed v \<Longrightarrow> wrapInnerText tw pw l = l"
  by (simp add: wrapInnerText_def)

lemma fitToSize_fields:
  "align_items (fitToSize pw ph l) = align_items l"
  "size__width (fitToSize pw ph l) = size__width l"
  "size__height (fitToSize pw ph l) = size__height l"
  "visible (fitToSize pw ph l) = visible l"
  "layout_style (fitToSize pw ph l) = layout_style l"
  "content_children (fitToSize pw ph l) = content_children l"
  "parent_padding (fitToSize pw ph l) = parent_padding l"
  "parentWidth (fitToSize pw ph l) = parentWidth l"
  "parentHeight (fitToSize pw ph l) = parentHeight l"
  by (simp_all add: fitToSize_def Let_def split: jsnum.splits)

section \<open>Fit to size\<close>

lemma fitToSize_formula:
  assumes sx: "scale_x l = Fin sx" and sy: "scale_y l = Fin sy"
    and lw: "layoutWidth = size__width l + marginLeft (layout_style l) + marginRight (layout_style l)"
    and lh: "layoutHeight = size__height l + marginTop (layout_style l) + marginBottom (layout_style l)"
    and fx: "finalScaleX =
              (case maxWidth (layout_style l) of
                 Some m \<Rightarrow> if layoutWidth * sx > getNumber m parent_w
                           then getNumber m parent_w / layoutWidth else sx
               | None \<Rightarrow> sx)"
    and fy: "finalScaleY =
              (case maxHeight (layout_style l) of
                 Some m \<Rightarrow> if layoutHeight * sy > getNumber m parent_h
                           then getNumber m parent_h / layoutHeight else sy
               | None \<Rightarrow> sy)"
  shows "(layoutWidth \<noteq> 0 \<and> layoutHeight \<noteq> 0 \<longrightarrow>
            fitToSize parent_w parent_h l =
              l\<lparr>scale_x := Fin (min finalScaleX finalScaleY),
                scale_y := Fin (min finalScaleX finalScaleY)\<rparr>) \<and>
         (0 < layoutWidth \<and> 0 < layoutHeight \<longrightarrow>
            min finalScaleX finalScaleY \<le> sx \<and> min finalScaleX finalScaleY \<le> sy) \<and>
         scale_x (fitToSize parent_w parent_h l) = scale_y (fitToSize parent_w parent_h l) \<and>
         (size__width l = 300 \<and> size__height l = 100 \<and> sx = 1 \<and> sy = 1 \<and>
          layoutWidth = 300 \<and> layoutHeight = 100 \<and>
          maxWidth (layout_style l) = Some (Pixels 150) \<and>
          maxHeight (layout_style l) = Some (Pixels 100) \<longrightarrow>
            scale_x (fitToSize parent_w parent_h l) = Fin (1 / 2) \<and>
            scale_y (fitToSize parent_w parent_h l) = Fin (1 / 2))"
proof (intro conjI impI)
  assume nz: "layoutWidth \<noteq> 0 \<and> layoutHeight \<noteq> 0"
  with sx sy lw lh fx fy
  show "fitToSize parent_w parent_h l =
          l\<lparr>scale_x := Fin (min finalScaleX finalScaleY),
            scale_y := Fin (min finalScaleX finalScaleY)\<rparr>"
    by (simp add: fitToSize_def Let_def jdiv_def split: option.splits)
next
  assume pos: "0 < layoutWidth \<and> 0 < layoutHeight"
  have x: "finalScaleX \<le> sx"
  proof (cases "maxWidth (layout_style l)")
    case None
    with fx show ?thesis by simp
  next
    case (Some m)
    show ?thesis
    proof (cases "layoutWidth * sx > getNumber m parent_w")
      case True
      with pos have "getNumber m parent_w / layoutWidth < sx"
        by (simp add: pos_divide_less_eq mult.commute)
      with fx Some True show ?thesis by simp
    next
      case False
      with fx Some show ?thesis by simp
    qed
  qed
  have y: "finalScaleY \<le> sy"
  proof (cases "maxHeight (layout_style l)")
    case None
    with fy show ?thesis by simp
  next
    case (Some m)
    show ?thesis
    proof (cases "layoutHeight * sy > getNumber m parent_h")
      case True
      with pos have "getNumber m parent_h / layoutHeight < sy"
        by (simp add: pos_divide_less_eq mult.commute)
      with fy Some True show ?thesis by simp
    next
      case False
      with fy Some show ?thesis by simp
    qed
  qed
  from x y show "min finalScaleX finalScaleY \<le> sx" by simp
  from x y show "min finalScaleX finalScaleY \<le> sy" by simp
next
  from sx sy show "scale_x (fitToSize parent_w parent_h l) = scale_y (fitToSize parent_w parent_h l)"
    by (simp add: fitToSize_def Let_def)
next
  assume ex: "size__width l = 300 \<and> size__height l = 100 \<and> sx = 1 \<and> sy = 1 \<and>
          layoutWidth = 300 \<and> layoutHeight = 100 \<and>
          maxWidth (layout_style l) = Some (Pixels 150) \<and>
          maxHeight (layout_style l) = Some (Pixels 100)"
  with sx sy lw lh
  show "scale_x (fitToSize parent_w parent_h l) = Fin (1 / 2)"
    by (simp add: fitToSize_def Let_def jdiv_def)
  from ex sx sy lw lh
  show "scale_y (fitToSize parent_w parent_h l) = Fin (1 / 2)"
    by (simp add: fitToSize_def Let_def jdiv_def)
qed


lemma update_reached:
  assumes "reachesAlign tw th pw ph l"
  shows "\<exists>l3 its. snd (SizeController_update tw th pw ph l) = l3\<lparr>align_items := its\<rparr> \<and>
     l3 = (let l1 = wrapInnerText tw pw (l\<lparr>parentWidth := pw, parentHeight := ph\<rparr>);
               l2 = l1\<lparr>size__width := computedWidth tw pw l1, size__height := computedHeight th ph l1,
                       scale_x := Fin (scaleX (layout_style l)), scale_y := Fin (scaleY (layout_style l))\<rparr>
           in if truthy (maxWidth (layout_style l)) \<or> truthy (maxHeight (layout_style l))
              then fitToSize pw ph l2 else l2)"
proof -
  define l1 where "l1 = wrapInnerText tw pw (l\<lparr>parentWidth := pw, parentHeight := ph\<rparr>)"
  define l2 where "l2 = l1\<lparr>size__width := computedWidth tw pw l1, size__height := computedHeight th ph l1,
                   scale_x := Fin (scaleX (layout_style l)), scale_y := Fin (scaleY (layout_style l))\<rparr>"
  define l3 where "l3 = (if truthy (maxWidth (layout_style l)) \<or> truthy (maxHeight (layout_style l))
                 then fitToSize pw ph l2 else l2)"
  from assms have nz: "\<not> (width (layout_style l) = Fixed (Pixels 0) \<or> height (layout_style l) = Fixed (Pixels 0))"
    and nc: "\<not> (computedWidth tw pw l1 = 0 \<or> computedHeight th ph l1 = 0)"
    by (simp_all add: reachesAlign_def Let_def l1_def)
  have first: "SizeController_update tw th pw ph l =
    (if computedWidth tw pw l1 = 0 \<or> computedHeight th ph l1 = 0 then (None, l1\<lparr>visible := False\<rparr>)
     else case FlexAlignController_update (size__width l3) (flexDirection (layout_style l))
                 (flexWrap (layout_style l)) (justifyContent (layout_style l)) (align_items l3) of
            Inl e \<Rightarrow> (Some e, l3)
          | Inr placed \<Rightarrow> (None, l3\<lparr>align_items := placed\<rparr>))"
    unfolding SizeController_update_def Let_def l1_def l2_def l3_def
    by (simp only: nz if_False)
  have "\<exists>its. snd (SizeController_update tw th pw ph l) = l3\<lparr>align_items := its\<rparr>"
  proof (cases "FlexAlignController_update (size__width l3) (flexDirection (layout_style l))
                 (flexWrap (layout_style l)) (justifyContent (layout_style l)) (align_items l3)")
    case (Inl e)
    with first nc have "snd (SizeController_update tw th pw ph l) = l3\<lparr>align_items := align_items l3\<rparr>"
      by simp
    then show ?thesis by blast
  next
    case (Inr placed)
    with first nc have "snd (SizeController_update tw th pw ph l) = l3\<lparr>align_items := placed\<rparr>"
      by simp
    then show ?thesis by blast
  qed
  then show ?thesis
    unfolding Let_def l3_def l2_def l1_def by blast
qed


text \<open>
  C1, as the code has it. For a node whose pass gets past both zero-size returns,
  \<open>update\<close> stores the computed width and height and sets the scale to
  \<open>(scaleX, scaleY)\<close>. The fit step runs only when \<open>maxWidth\<close> or \<open>maxHeight\<close> is truthy
  (set, and not the number 0); when neither is, the scale stays \<open>(scaleX, scaleY)\<close>.
  When it runs, with \<open>layoutWidth = width + marginLeft + marginRight\<close> and
  \<open>layoutHeight = height + marginTop + marginBottom\<close> (the unscaled size plus the
  margins), it takes \<open>maxWidth / layoutWidth\<close> for the x axis only when
  \<open>layoutWidth * scaleX\<close> exceeds \<open>maxWidth\<close>, \<open>maxHeight / layoutHeight\<close> for the y axis
  only when \<open>layoutHeight * scaleY\<close> exceeds \<open>maxHeight\<close>, the style's scale otherwise,
  and both axes get the same scale: for non-zero \<open>layoutWidth\<close> and \<open>layoutHeight\<close> the
  smaller of the two, which for positive ones is never more than \<open>scaleX\<close> or \<open>scaleY\<close>.
  A node of 300 by 100 with no margins, scale (1, 1), \<open>maxWidth = 150\<close> and
  \<open>maxHeight = 100\<close> ends at scale (0.5, 0.5).
\<close>

theorem update_fit_to_size:
  assumes reach: "reachesAlign tw th pw ph l"
    and st: "st = layout_style l"
    and l1: "l1 = wrapInnerText tw pw (l\<lparr>parentWidth := pw, parentHeight := ph\<rparr>)"
    and lw: "layoutWidth = computedWidth tw pw l1 + marginLeft st + marginRight st"
    and lh: "layoutHeight = computedHeight th ph l1 + marginTop st + marginBottom st"
    and fx: "finalScaleX =
              (case maxWidth st of
                 Some m \<Rightarrow> if layoutWidth * scaleX st > getNumber m pw
                           then getNumber m pw / layoutWidth else scaleX st
               | None \<Rightarrow> scaleX st)"
    and fy: "finalScaleY =
              (case maxHeight st of
                 Some m \<Rightarrow> if layoutHeight * scaleY st > getNumber m ph
                           then getNumber m ph / layoutHeight else scaleY st
               | None \<Rightarrow> scaleY st)"
    and r: "r = snd (SizeController_update tw th pw ph l)"
  shows "size__width r = computedWidth tw pw l1 \<and> size__height r = computedHeight th ph l1 \<and>
         (\<not> truthy (maxWidth st) \<and> \<not> truthy (maxHeight st) \<longrightarrow>
            scale_x r = Fin (scaleX st) \<and> scale_y r = Fin (scaleY st)) \<and>
         (truthy (maxWidth st) \<or> truthy (maxHeight st) \<longrightarrow> scale_x r = scale_y r) \<and>
         ((truthy (maxWidth st) \<or> truthy (maxHeight st)) \<and> layoutWidth \<noteq> 0 \<and> layoutHeight \<noteq> 0 \<longrightarrow>
            scale_x r = Fin (min finalScaleX finalScaleY) \<and>
            scale_y r = Fin (min finalScaleX finalScaleY)) \<and>
         (0 < layoutWidth \<and> 0 < layoutHeight \<longrightarrow>
            min finalScaleX finalScaleY \<le> scaleX st \<and> min finalScaleX finalScaleY \<le> scaleY st) \<and>
         (layoutWidth = 300 \<and> layoutHeight = 100 \<and> scaleX st = 1 \<and> scaleY st = 1 \<and>
          maxWidth st = Some (Pixels 150) \<and> maxHeight st = Some (Pixels 100) \<longrightarrow>
            scale_x r = Fin (1 / 2) \<and> scale_y r = Fin (1 / 2))"
proof -
  define l2 where "l2 = l1\<lparr>size__width := computedWidth tw pw l1, size__height := computedHeight th ph l1,
                   scale_x := Fin (scaleX st), scale_y := Fin (scaleY st)\<rparr>"
  define l3 where "l3 = (if truthy (maxWidth st) \<or> truthy (maxHeight st)
                 then fitToSize pw ph l2 else l2)"
  from update_reached [OF reach] obtain its where "r = l3\<lparr>align_items := its\<rparr>"
    unfolding r l3_def l2_def l1 st Let_def by blast
  then have rs: "size__width r = size__width l3" "size__height r = size__height l3"
    "scale_x r = scale_x l3" "scale_y r = scale_y l3" by simp_all
  have st2: "layout_style l2 = st"
    by (simp add: l2_def l1 st wrapInnerText_fields)
  have sx: "scale_x l2 = Fin (scaleX st)" and sy: "scale_y l2 = Fin (scaleY st)"
    by (simp_all add: l2_def)
  have lw2: "layoutWidth = size__width l2 + marginLeft (layout_style l2) + marginRight (layout_style l2)"
    and lh2: "layoutHeight = size__height l2 + marginTop (layout_style l2) + marginBottom (layout_style l2)"
    by (simp_all add: st2 lw lh) (simp_all add: l2_def)
  have fx2: "finalScaleX =
              (case maxWidth (layout_style l2) of
                 Some m \<Rightarrow> if layoutWidth * scaleX st > getNumber m pw
                           then getNumber m pw / layoutWidth else scaleX st
               | None \<Rightarrow> scaleX st)"
    and fy2: "finalScaleY =
              (case maxHeight (layout_style l2) of
                 Some m \<Rightarrow> if layoutHeight * scaleY st > getNumber m ph
                           then getNumber m ph / layoutHeight else scaleY st
               | None \<Rightarrow> scaleY st)"
    unfolding st2 by (rule fx, rule fy)
  note f = fitToSize_formula [OF sx sy lw2 lh2 fx2 fy2]
  have sizes: "size__width l3 = computedWidth tw pw l1" "size__height l3 = computedHeight th ph l1"
    by (simp_all add: l3_def l2_def fitToSize_fields)
  have skipped: "\<not> truthy (maxWidth st) \<and> \<not> truthy (maxHeight st) \<Longrightarrow>
      scale_x l3 = Fin (scaleX st) \<and> scale_y l3 = Fin (scaleY st)"
    by (simp add: l3_def l2_def)
  have uniform: "truthy (maxWidth st) \<or> truthy (maxHeight st) \<Longrightarrow> scale_x l3 = scale_y l3"
    using f by (simp add: l3_def)
  have formula: "(truthy (maxWidth st) \<or> truthy (maxHeight st)) \<and> layoutWidth \<noteq> 0 \<and> layoutHeight \<noteq> 0 \<Longrightarrow>
      scale_x l3 = Fin (min finalScaleX finalScaleY) \<and> scale_y l3 = Fin (min finalScaleX finalScaleY)"
  proof -
    assume a: "(truthy (maxWidth st) \<or> truthy (maxHeight st)) \<and> layoutWidth \<noteq> 0 \<and> layoutHeight \<noteq> 0"
    with f have "fitToSize pw ph l2 =
        l2\<lparr>scale_x := Fin (min finalScaleX finalScaleY), scale_y := Fin (min finalScaleX finalScaleY)\<rparr>"
      by blast
    with a show ?thesis by (simp add: l3_def)
  qed
  have down: "0 < layoutWidth \<and> 0 < layoutHeight \<Longrightarrow>
      min finalScaleX finalScaleY \<le> scaleX st \<and> min finalScaleX finalScaleY \<le> scaleY st"
    using f by blast
  have example: "layoutWidth = 300 \<and> layoutHeight = 100 \<and> scaleX st = 1 \<and> scaleY st = 1 \<and>
          maxWidth st = Some (Pixels 150) \<and> maxHeight st = Some (Pixels 100) \<Longrightarrow>
            scale_x l3 = Fin (1 / 2) \<and> scale_y l3 = Fin (1 / 2)"
  proof -
    assume a: "layoutWidth = 300 \<and> layoutHeight = 100 \<and> scaleX st = 1 \<and> scaleY st = 1 \<and>
          maxWidth st = Some (Pixels 150) \<and> maxHeight st = Some (Pixels 100)"
    with fx fy have "finalScaleX = 1 / 2" "finalScaleY = 1" by simp_all
    moreover from a have "(truthy (maxWidth st) \<or> truthy (maxHeight st)) \<and> layoutWidth \<noteq> 0 \<and> layoutHeight \<noteq> 0"
      by simp
    from formula [OF this] have "scale_x l3 = Fin (min finalScaleX finalScaleY)"
      "scale_y l3 = Fin (min finalScaleX finalScaleY)" by simp_all
    ultimately show ?thesis by simp
  qed
  from sizes skipped uniform formula down example show ?thesis
    unfolding rs by blast
qed


theorem update_fit_to_size_witness:
  "scale_x (snd (SizeController_update (\<lambda>t. 0) (\<lambda>t. 0) 800 600
      (plain_layout\<lparr>layout_style :=
         plain_style\<lparr>maxWidth := Some (Pixels 150), maxHeight := Some (Pixels 100)\<rparr>\<rparr>))) = Fin (1 / 2)
   \<and> scale_y (snd (SizeController_update (\<lambda>t. 0) (\<lambda>t. 0) 800 600
      (plain_layout\<lparr>layout_style :=
         plain_style\<lparr>maxWidth := Some (Pixels 150), maxHeight := Some (Pixels 100)\<rparr>\<rparr>))) = Fin (1 / 2)
   \<and> scale_x (snd (SizeController_update (\<lambda>t. 0) (\<lambda>t. 0) 800 600
      (plain_layout\<lparr>layout_style :=
         plain_style\<lparr>maxWidth := Some (Pixels 0), scaleX := 2, scaleY := 3\<rparr>\<rparr>))) = Fin 2
   \<and> scale_y (snd (SizeController_update (\<lambda>t. 0) (\<lambda>t. 0) 800 600
      (plain_layout\<lparr>layout_style :=
         plain_style\<lparr>maxWidth := Some (Pixels 0), scaleX := 2, scaleY := 3\<rparr>\<rparr>))) = Fin 3"
proof -
  let ?a = "plain_layout\<lparr>layout_style :=
         plain_style\<lparr>maxWidth := Some (Pixels 150), maxHeight := Some (Pixels 100)\<rparr>\<rparr>"
  let ?b = "plain_layout\<lparr>layout_style :=
         plain_style\<lparr>maxWidth := Some (Pixels 0), scaleX := 2, scaleY := 3\<rparr>\<rparr>"
  have ra: "reachesAlign (\<lambda>t. 0) (\<lambda>t. 0) 800 600 ?a"
    by (simp add: reachesAlign_def wrapInnerText_def computedWidth_def computedHeight_def
        plain_layout_def plain_style_def Let_def)
  have rb: "reachesAlign (\<lambda>t. 0) (\<lambda>t. 0) 800 600 ?b"
    by (simp add: reachesAlign_def wrapInnerText_def computedWidth_def computedHeight_def
        plain_layout_def plain_style_def Let_def)
  have ea: "wrapInnerText (\<lambda>t. 0) 800 (?a\<lparr>parentWidth := 800, parentHeight := 600\<rparr>) =
      ?a\<lparr>parentWidth := 800, parentHeight := 600\<rparr>"
    by (rule wrapInnerText_fixed [where v = "Pixels 300"]) (simp add: plain_layout_def plain_style_def)
  have eb: "wrapInnerText (\<lambda>t. 0) 800 (?b\<lparr>parentWidth := 800, parentHeight := 600\<rparr>) =
      ?b\<lparr>parentWidth := 800, parentHeight := 600\<rparr>"
    by (rule wrapInnerText_fixed [where v = "Pixels 300"]) (simp add: plain_layout_def plain_style_def)
  from update_fit_to_size [OF ra refl refl refl refl refl refl refl]
  have a: "scale_x (snd (SizeController_update (\<lambda>t. 0) (\<lambda>t. 0) 800 600 ?a)) = Fin (1 / 2) \<and>
      scale_y (snd (SizeController_update (\<lambda>t. 0) (\<lambda>t. 0) 800 600 ?a)) = Fin (1 / 2)"
    unfolding ea by (simp add: computedWidth_def computedHeight_def plain_layout_def plain_style_def)
  from update_fit_to_size [OF rb refl refl refl refl refl refl refl]
  have b: "scale_x (snd (SizeController_update (\<lambda>t. 0) (\<lambda>t. 0) 800 600 ?b)) = Fin 2 \<and>
      scale_y (snd (SizeController_update (\<lambda>t. 0) (\<lambda>t. 0) 800 600 ?b)) = Fin 3"
    unfolding eb by (simp add: computedWidth_def computedHeight_def plain_layout_def plain_style_def)
  from a b show ?thesis by simp
qed

text \<open>
  C1 as the specification states it: the box is \<open>width * scaleX\<close> plus the margins, and
  the fit scale is \<open>maxWidth\<close> over that box, taken when that box exceeds \<open>maxWidth\<close>. A
  layout of width 100 at scale (2, 2) with a left margin of 100 and \<open>maxWidth = 350\<close> has
  a box of 300, which does not exceed 350, so the scale would stay 2; \<open>fitToSize\<close>
  compares \<open>(100 + 100) * 2 = 400\<close> with 350 and sets the scale to \<open>350 / 200\<close>.
\<close>

theorem fitToSize_box_counterexample:
  "scale_x (fitToSize 1000 1000
     (plain_layout\<lparr>layout_style :=
        plain_style\<lparr>maxWidth := Some (Pixels 350), scaleX := 2, scaleY := 2, marginLeft := 100\<rparr>,
        size__width := 100, scale_x := Fin 2, scale_y := Fin 2\<rparr>)) = Fin (7 / 4)
   \<and> spec_fit_scale 1000 1000
     (plain_layout\<lparr>layout_style :=
        plain_style\<lparr>maxWidth := Some (Pixels 350), scaleX := 2, scaleY := 2, marginLeft := 100\<rparr>,
        size__width := 100, scale_x := Fin 2, scale_y := Fin 2\<rparr>) = 2"
  by (simp add: fitToSize_def spec_fit_scale_def plain_layout_def plain_style_def Let_def jdiv_def)

section \<open>A size of zero\<close>

text \<open>
  C4, as the code has it. When the style's width or height is the number 0, or the
  computed width or height is 0 after clamping, \<open>update\<close> sets \<open>visible\<close> to false and
  returns: nothing is raised, the align controller is not called (the items keep their
  positions), and \<open>_width\<close>, \<open>_height\<close> and the scale keep the values they had. With a
  literal 0 only \<open>parentWidth\<close>, \<open>parentHeight\<close> and \<open>visible\<close> are written.
\<close>

theorem update_stops_at_zero_size:
  assumes "width (layout_style l) = Fixed (Pixels 0) \<or> height (layout_style l) = Fixed (Pixels 0) \<or>
           computedWidth tw pw (wrapInnerText tw pw (l\<lparr>parentWidth := pw, parentHeight := ph\<rparr>)) = 0 \<or>
           computedHeight th ph (wrapInnerText tw pw (l\<lparr>parentWidth := pw, parentHeight := ph\<rparr>)) = 0"
  shows "fst (SizeController_update tw th pw ph l) = None \<and>
         \<not> visible (snd (SizeController_update tw th pw ph l)) \<and>
         align_items (snd (SizeController_update tw th pw ph l)) = align_items l \<and>
         size__width (snd (SizeController_update tw th pw ph l)) = size__width l \<and>
         size__height (snd (SizeController_update tw th pw ph l)) = size__height l \<and>
         scale_x (snd (SizeController_update tw th pw ph l)) = scale_x l \<and>
         scale_y (snd (SizeController_update tw th pw ph l)) = scale_y l \<and>
         (width (layout_style l) = Fixed (Pixels 0) \<or> height (layout_style l) = Fixed (Pixels 0) \<longrightarrow>
            snd (SizeController_update tw th pw ph l) =
              l\<lparr>parentWidth := pw, parentHeight := ph, visible := False\<rparr>)"
proof (cases "width (layout_style l) = Fixed (Pixels 0) \<or> height (layout_style l) = Fixed (Pixels 0)")
  case True
  then show ?thesis
    by (simp add: SizeController_update_def Let_def)
next
  case False
  with assms have
    "computedWidth tw pw (wrapInnerText tw pw (l\<lparr>parentWidth := pw, parentHeight := ph\<rparr>)) = 0 \<or>
     computedHeight th ph (wrapInnerText tw pw (l\<lparr>parentWidth := pw, parentHeight := ph\<rparr>)) = 0"
    by blast
  with False show ?thesis
    by (simp add: SizeController_update_def Let_def wrapInnerText_fields)
qed

theorem update_stops_at_zero_size_witness:
  "SizeController_update (\<lambda>t. 0) (\<lambda>t. 0) 800 600
     (plain_layout\<lparr>layout_style := plain_style\<lparr>width := Fixed (Pixels 0)\<rparr>\<rparr>)
   = (None, plain_layout\<lparr>layout_style := plain_style\<lparr>width := Fixed (Pixels 0)\<rparr>,
              parentWidth := 800, parentHeight := 600, visible := False\<rparr>)
   \<and> \<not> visible (snd (SizeController_update (\<lambda>t. 0) (\<lambda>t. 0) 800 600
        (plain_layout\<lparr>layout_style := plain_style\<lparr>width := Fixed (Percent 0)\<rparr>\<rparr>)))"
proof -
  let ?a = "plain_layout\<lparr>layout_style := plain_style\<lparr>width := Fixed (Pixels 0)\<rparr>\<rparr>"
  let ?b = "plain_layout\<lparr>layout_style := plain_style\<lparr>width := Fixed (Percent 0)\<rparr>\<rparr>"
  have a: "width (layout_style ?a) = Fixed (Pixels 0) \<or> height (layout_style ?a) = Fixed (Pixels 0) \<or>
           computedWidth (\<lambda>t. 0) 800 (wrapInnerText (\<lambda>t. 0) 800 (?a\<lparr>parentWidth := 800, parentHeight := 600\<rparr>)) = 0 \<or>
           computedHeight (\<lambda>t. 0) 600 (wrapInnerText (\<lambda>t. 0) 800 (?a\<lparr>parentWidth := 800, parentHeight := 600\<rparr>)) = 0"
    by (simp add: plain_layout_def plain_style_def)
  have b: "width (layout_style ?b) = Fixed (Pixels 0) \<or> height (layout_style ?b) = Fixed (Pixels 0) \<or>
           computedWidth (\<lambda>t. 0) 800 (wrapInnerText (\<lambda>t. 0) 800 (?b\<lparr>parentWidth := 800, parentHeight := 600\<rparr>)) = 0 \<or>
           computedHeight (\<lambda>t. 0) 600 (wrapInnerText (\<lambda>t. 0) 800 (?b\<lparr>parentWidth := 800, parentHeight := 600\<rparr>)) = 0"
    by (simp add: plain_layout_def plain_style_def wrapInnerText_def computedWidth_def Let_def)
  have lit: "width (layout_style ?a) = Fixed (Pixels 0) \<or> height (layout_style ?a) = Fixed (Pixels 0)"
    by (simp add: plain_style_def)
  from update_stops_at_zero_size [OF a] lit
  have ra: "fst (SizeController_update (\<lambda>t. 0) (\<lambda>t. 0) 800 600 ?a) = None \<and>
      snd (SizeController_update (\<lambda>t. 0) (\<lambda>t. 0) 800 600 ?a) =
         ?a\<lparr>parentWidth := 800, parentHeight := 600, visible := False\<rparr>"
    by blast
  from update_stops_at_zero_size [OF b]
  have rb: "\<not> visible (snd (SizeController_update (\<lambda>t. 0) (\<lambda>t. 0) 800 600 ?b))"
    by blast
  from ra have "SizeController_update (\<lambda>t. 0) (\<lambda>t. 0) 800 600 ?a =
      (None, ?a\<lparr>parentWidth := 800, parentHeight := 600, visible := False\<rparr>)"
    by (simp add: prod_eq_iff)
  with rb show ?thesis by simp
qed

text \<open>
  C4 as the specification states it: all geometry fields are set to 0. A layout that an
  earlier pass has sized to 300 by 100 at scale 1, and whose style width is now 0, keeps
  its width of 300, its height of 100 and its scale of 1.
\<close>

theorem update_zero_size_keeps_geometry_counterexample:
  "size__width (snd (SizeController_update (\<lambda>t. 0) (\<lambda>t. 0) 800 600
     (plain_layout\<lparr>layout_style := plain_style\<lparr>width := Fixed (Pixels 0)\<rparr>\<rparr>))) = 300
   \<and> scale_x (snd (SizeController_update (\<lambda>t. 0) (\<lambda>t. 0) 800 600
     (plain_layout\<lparr>layout_style := plain_style\<lparr>width := Fixed (Pixels 0)\<rparr>\<rparr>))) = Fin 1"
  by (simp add: SizeController_update_def plain_layout_def plain_style_def Let_def)

section \<open>The flex direction\<close>

text \<open>
  C5. On a \<open>flexDirection\<close> other than \<open>row\<close>, \<open>row-reverse\<close>, \<open>column\<close> and
  \<open>column-reverse\<close> the align controller's \<open>update\<close> throws. \<open>row\<close> and \<open>column\<close> run
  the row and the column algorithm over the items as they are, \<open>row-reverse\<close> and
  \<open>column-reverse\<close> over the reversed array. The size controller, the caller of
  \<open>update\<close>, does not catch: whenever its pass gets as far as the alignment, the error
  is its outcome, and no item has been moved.
\<close>

theorem flexDirection_dispatch:
  "(direction \<noteq> ''row'' \<and> direction \<noteq> ''row-reverse'' \<and>
    direction \<noteq> ''column'' \<and> direction \<noteq> ''column-reverse'' \<longrightarrow>
      FlexAlignController_update rootWidth direction wrap justify items = Inl InvalidFlexDirection) \<and>
   FlexAlignController_update rootWidth ''row'' wrap justify items =
     Inr (alignFlexRow rootWidth wrap justify items) \<and>
   FlexAlignController_update rootWidth ''row-reverse'' wrap justify items =
     Inr (rev (alignFlexRow rootWidth wrap justify (rev items))) \<and>
   FlexAlignController_update rootWidth ''column'' wrap justify items =
     Inr (alignFlexColumn items) \<and>
   FlexAlignController_update rootWidth ''column-reverse'' wrap justify items =
     Inr (rev (alignFlexColumn (rev items))) \<and>
   (flexDirection (layout_style l) \<noteq> ''row'' \<and> flexDirection (layout_style l) \<noteq> ''row-reverse'' \<and>
    flexDirection (layout_style l) \<noteq> ''column'' \<and>
    flexDirection (layout_style l) \<noteq> ''column-reverse'' \<and>
    width (layout_style l) \<noteq> Fixed (Pixels 0) \<and> height (layout_style l) \<noteq> Fixed (Pixels 0) \<and>
    computedWidth tw pw (wrapInnerText tw pw (l\<lparr>parentWidth := pw, parentHeight := ph\<rparr>)) \<noteq> 0 \<and>
    computedHeight th ph (wrapInnerText tw pw (l\<lparr>parentWidth := pw, parentHeight := ph\<rparr>)) \<noteq> 0 \<longrightarrow>
      fst (SizeController_update tw th pw ph l) = Some InvalidFlexDirection \<and>
      align_items (snd (SizeController_update tw th pw ph l)) = align_items l)"
proof (intro conjI impI)
  assume "direction \<noteq> ''row'' \<and> direction \<noteq> ''row-reverse'' \<and>
    direction \<noteq> ''column'' \<and> direction \<noteq> ''column-reverse''"
  then show "FlexAlignController_update rootWidth direction wrap justify items = Inl InvalidFlexDirection"
    by (simp add: FlexAlignController_update_def)
next
  show "FlexAlignController_update rootWidth ''row'' wrap justify items =
     Inr (alignFlexRow rootWidth wrap justify items)"
    by (simp add: FlexAlignController_update_def)
next
  show "FlexAlignController_update rootWidth ''row-reverse'' wrap justify items =
     Inr (rev (alignFlexRow rootWidth wrap justify (rev items)))"
    by (simp add: FlexAlignController_update_def)
next
  show "FlexAlignController_update rootWidth ''column'' wrap justify items =
     Inr (alignFlexColumn items)"
    by (simp add: FlexAlignController_update_def)
next
  show "FlexAlignController_update rootWidth ''column-reverse'' wrap justify items =
     Inr (rev (alignFlexColumn (rev items)))"
    by (simp add: FlexAlignController_update_def)
next
  assume h: "flexDirection (layout_style l) \<noteq> ''row'' \<and> flexDirection (layout_style l) \<noteq> ''row-reverse'' \<and>
    flexDirection (layout_style l) \<noteq> ''column'' \<and>
    flexDirection (layout_style l) \<noteq> ''column-reverse'' \<and>
    width (layout_style l) \<noteq> Fixed (Pixels 0) \<and> height (layout_style l) \<noteq> Fixed (Pixels 0) \<and>
    computedWidth tw pw (wrapInnerText tw pw (l\<lparr>parentWidth := pw, parentHeight := ph\<rparr>)) \<noteq> 0 \<and>
    computedHeight th ph (wrapInnerText tw pw (l\<lparr>parentWidth := pw, parentHeight := ph\<rparr>)) \<noteq> 0"
  then have thrown: "FlexAlignController_update w (flexDirection (layout_style l)) fw jc its =
      Inl InvalidFlexDirection" for w fw jc its
    by (simp add: FlexAlignController_update_def)
  from h show "fst (SizeController_update tw th pw ph l) = Some InvalidFlexDirection"
    by (simp add: SizeController_update_def Let_def thrown)
  from h show "align_items (snd (SizeController_update tw th pw ph l)) = align_items l"
    by (simp add: SizeController_update_def Let_def thrown fitToSize_fields wrapInnerText_fields)
qed

theorem flexDirection_dispatch_witness:
  "FlexAlignController_update 100 ''diagonal'' ''wrap'' ''center''
     [\<lparr>child_x = Fin 9, child_y = Fin 9, child_width = 60, child_height = 10\<rparr>]
   = Inl InvalidFlexDirection
   \<and> fst (SizeController_update (\<lambda>t. 0) (\<lambda>t. 0) 800 600
        (plain_layout\<lparr>layout_style := plain_style\<lparr>flexDirection := ''diagonal''\<rparr>\<rparr>))
     = Some InvalidFlexDirection"
proof -
  let ?l = "plain_layout\<lparr>layout_style := plain_style\<lparr>flexDirection := ''diagonal''\<rparr>\<rparr>"
  let ?items = "[\<lparr>child_x = Fin 9, child_y = Fin 9, child_width = 60, child_height = 10\<rparr>]"
  note t = flexDirection_dispatch [of "''diagonal''" 100 "''wrap''" "''center''" ?items ?l
      "\<lambda>t. 0" 800 600 "\<lambda>t. 0"]
  have d: "''diagonal'' \<noteq> ''row'' \<and> ''diagonal'' \<noteq> ''row-reverse'' \<and>
    ''diagonal'' \<noteq> ''column'' \<and> ''diagonal'' \<noteq> ''column-reverse''"
    by simp
  have h: "flexDirection (layout_style ?l) \<noteq> ''row'' \<and> flexDirection (layout_style ?l) \<noteq> ''row-reverse'' \<and>
    flexDirection (layout_style ?l) \<noteq> ''column'' \<and>
    flexDirection (layout_style ?l) \<noteq> ''column-reverse'' \<and>
    width (layout_style ?l) \<noteq> Fixed (Pixels 0) \<and> height (layout_style ?l) \<noteq> Fixed (Pixels 0) \<and>
    computedWidth (\<lambda>t. 0) 800 (wrapInnerText (\<lambda>t. 0) 800 (?l\<lparr>parentWidth := 800, parentHeight := 600\<rparr>)) \<noteq> 0 \<and>
    computedHeight (\<lambda>t. 0) 600 (wrapInnerText (\<lambda>t. 0) 800 (?l\<lparr>parentWidth := 800, parentHeight := 600\<rparr>)) \<noteq> 0"
    by (simp add: plain_layout_def plain_style_def wrapInnerText_def computedWidth_def
        computedHeight_def Let_def)
  from t d have a: "FlexAlignController_update 100 ''diagonal'' ''wrap'' ''center'' ?items =
      Inl InvalidFlexDirection"
    by blast
  from t h have b: "fst (SizeController_update (\<lambda>t. 0) (\<lambda>t. 0) 800 600 ?l) = Some InvalidFlexDirection"
    by blast
  from a b show ?thesis by simp
qed

section \<open>Running the pass twice\<close>

lemma alike_length: "alike X Y a b \<Longrightarrow> length a = length b"
  by (metis alike_def length_map)

lemma alike_unplaced_nth: "alike X Y a b \<Longrightarrow> i < length a \<Longrightarrow> unplaced (a ! i) = unplaced (b ! i)"
  by (metis alike_def map_unplaced_nth alike_length)

lemma alike_width: "alike X Y a b \<Longrightarrow> i < length a \<Longrightarrow> child_width (a ! i) = child_width (b ! i)"
  by (metis alike_unplaced_nth unplaced_width)

lemma alike_height: "alike X Y a b \<Longrightarrow> i < length a \<Longrightarrow> child_height (a ! i) = child_height (b ! i)"
  by (metis alike_unplaced_nth unplaced_height)

lemma item_eqI:
  fixes c d :: "'a item_scheme"
  assumes "unplaced c = unplaced d" "child_x c = child_x d" "child_y c = child_y d"
  shows "c = d"
proof -
  have "c = (unplaced c)\<lparr>child_x := child_x c, child_y := child_y c\<rparr>"
    by (simp add: unplaced_def)
  also have "\<dots> = (unplaced d)\<lparr>child_x := child_x d, child_y := child_y d\<rparr>"
    using assms by simp
  also have "\<dots> = d"
    by (simp add: unplaced_def)
  finally show ?thesis .
qed

lemma alike_all_eq:
  assumes "alike {..<length a} {..<length a} a b"
  shows "a = b"
proof (rule nth_equalityI)
  show "length a = length b" using assms by (rule alike_length)
next
  fix i assume i: "i < length a"
  from assms i have "unplaced (a ! i) = unplaced (b ! i)" by (rule alike_unplaced_nth)
  moreover from assms i have "child_x (a ! i) = child_x (b ! i)" by (simp add: alike_def)
  moreover from assms i have "child_y (a ! i) = child_y (b ! i)" by (simp add: alike_def)
  ultimately show "a ! i = b ! i" by (rule item_eqI)
qed

lemma alike_put:
  assumes "alike X Y a b"
    and "\<And>c d. unplaced c = unplaced d \<Longrightarrow> unplaced (f c) = unplaced (g d)"
    and "\<And>c d. unplaced c = unplaced d \<Longrightarrow> i \<in> X' \<Longrightarrow>
            (i \<in> X \<Longrightarrow> child_x c = child_x d) \<Longrightarrow> child_x (f c) = child_x (g d)"
    and "\<And>c d. unplaced c = unplaced d \<Longrightarrow> i \<in> Y' \<Longrightarrow>
            (i \<in> Y \<Longrightarrow> child_y c = child_y d) \<Longrightarrow> child_y (f c) = child_y (g d)"
    and "X' \<subseteq> insert i X" and "Y' \<subseteq> insert i Y"
  shows "alike X' Y' (a[i := f (a ! i)]) (b[i := g (b ! i)])"
proof -
  from assms(1) have len: "length a = length b" by (rule alike_length)
  have un: "\<And>j. j < length a \<Longrightarrow> unplaced (a ! j) = unplaced (b ! j)"
    using assms(1) by (rule alike_unplaced_nth)
  have "map unplaced (a[i := f (a ! i)]) = map unplaced (b[i := g (b ! i)])"
  proof (rule nth_equalityI)
    show "length (map unplaced (a[i := f (a ! i)])) = length (map unplaced (b[i := g (b ! i)]))"
      using len by simp
  next
    fix j assume "j < length (map unplaced (a[i := f (a ! i)]))"
    then have j: "j < length a" by simp
    show "map unplaced (a[i := f (a ! i)]) ! j = map unplaced (b[i := g (b ! i)]) ! j"
    proof (cases "j = i")
      case True
      with j len un [OF j] assms(2) show ?thesis by simp
    next
      case False
      with j len un [OF j] show ?thesis by simp
    qed
  qed
  moreover have "\<forall>j \<in> X'. j < length (a[i := f (a ! i)]) \<longrightarrow>
      child_x (a[i := f (a ! i)] ! j) = child_x (b[i := g (b ! i)] ! j)"
  proof (intro ballI impI)
    fix j assume jx: "j \<in> X'" and "j < length (a[i := f (a ! i)])"
    then have j: "j < length a" by simp
    show "child_x (a[i := f (a ! i)] ! j) = child_x (b[i := g (b ! i)] ! j)"
    proof (cases "j = i")
      case True
      have "child_x (f (a ! i)) = child_x (g (b ! i))"
      proof (rule assms(3))
        show "unplaced (a ! i) = unplaced (b ! i)" using un j True by simp
        show "i \<in> X'" using jx True by simp
        show "i \<in> X \<Longrightarrow> child_x (a ! i) = child_x (b ! i)"
          using assms(1) j True by (simp add: alike_def)
      qed
      with True j len show ?thesis by simp
    next
      case False
      with jx assms(5) have "j \<in> X" by auto
      with assms(1) j have "child_x (a ! j) = child_x (b ! j)" by (simp add: alike_def)
      with False show ?thesis by simp
    qed
  qed
  moreover have "\<forall>j \<in> Y'. j < length (a[i := f (a ! i)]) \<longrightarrow>
      child_y (a[i := f (a ! i)] ! j) = child_y (b[i := g (b ! i)] ! j)"
  proof (intro ballI impI)
    fix j assume jy: "j \<in> Y'" and "j < length (a[i := f (a ! i)])"
    then have j: "j < length a" by simp
    show "child_y (a[i := f (a ! i)] ! j) = child_y (b[i := g (b ! i)] ! j)"
    proof (cases "j = i")
      case True
      have "child_y (f (a ! i)) = child_y (g (b ! i))"
      proof (rule assms(4))
        show "unplaced (a ! i) = unplaced (b ! i)" using un j True by simp
        show "i \<in> Y'" using jy True by simp
        show "i \<in> Y \<Longrightarrow> child_y (a ! i) = child_y (b ! i)"
          using assms(1) j True by (simp add: alike_def)
      qed
      with True j len show ?thesis by simp
    next
      case False
      with jy assms(6) have "j \<in> Y" by auto
      with assms(1) j have "child_y (a ! j) = child_y (b ! j)" by (simp add: alike_def)
      with False show ?thesis by simp
    qed
  qed
  ultimately show ?thesis by (simp add: alike_def)
qed

lemma unplaced_cong_xy:
  "unplaced c = unplaced d \<Longrightarrow> unplaced (c\<lparr>child_x := v, child_y := w\<rparr>) = unplaced (d\<lparr>child_x := v', child_y := w'\<rparr>)"
  by simp

lemma alike_set_xy:
  "alike X Y a b \<Longrightarrow>
   alike (insert i X) (insert i Y) (a[i := (a ! i)\<lparr>child_x := v, child_y := w\<rparr>])
     (b[i := (b ! i)\<lparr>child_x := v, child_y := w\<rparr>])"
  by (rule alike_put [where f = "\<lambda>c. c\<lparr>child_x := v, child_y := w\<rparr>"
        and g = "\<lambda>c. c\<lparr>child_x := v, child_y := w\<rparr>"]) auto

lemma alike_set_x:
  "alike X Y a b \<Longrightarrow>
   alike (insert i X) Y (a[i := (a ! i)\<lparr>child_x := v\<rparr>]) (b[i := (b ! i)\<lparr>child_x := v\<rparr>])"
  by (rule alike_put [where f = "\<lambda>c. c\<lparr>child_x := v\<rparr>" and g = "\<lambda>c. c\<lparr>child_x := v\<rparr>"])
     auto

lemma alike_set_y:
  "alike X Y a b \<Longrightarrow>
   alike X (insert i Y) (a[i := (a ! i)\<lparr>child_y := v\<rparr>]) (b[i := (b ! i)\<lparr>child_y := v\<rparr>])"
  by (rule alike_put [where f = "\<lambda>c. c\<lparr>child_y := v\<rparr>" and g = "\<lambda>c. c\<lparr>child_y := v\<rparr>"])
     auto

lemma alike_map_x:
  "alike X Y a b \<Longrightarrow> i \<in> X \<Longrightarrow>
   alike X Y (a[i := (a ! i)\<lparr>child_x := h (child_x (a ! i))\<rparr>])
     (b[i := (b ! i)\<lparr>child_x := h (child_x (b ! i))\<rparr>])"
  by (rule alike_put [where f = "\<lambda>c. c\<lparr>child_x := h (child_x c)\<rparr>"
        and g = "\<lambda>c. c\<lparr>child_x := h (child_x c)\<rparr>"]) auto


lemma length_add_x: "length (add_x offset a i) = length a"
  by (simp add: add_x_def)

lemma alike_add_x: "alike X Y a b \<Longrightarrow> i \<in> X \<Longrightarrow> alike X Y (add_x offset a i) (add_x offset b i)"
  unfolding add_x_def by (rule alike_map_x [where h = "\<lambda>v. jadd v offset"])

lemma alike_foldl_add_x:
  "alike X Y a b \<Longrightarrow> set idxs \<subseteq> X \<Longrightarrow>
   alike X Y (foldl (add_x offset) a idxs) (foldl (add_x offset) b idxs)"
  by (induction idxs arbitrary: a b) (simp_all add: alike_add_x)

lemma alike_between_body:
  "alike X Y a b \<Longrightarrow> i \<in> X \<Longrightarrow>
   alike X Y (fst (between_body gap (a, n) i)) (fst (between_body gap (b, n) i)) \<and>
   snd (between_body gap (a, n) i) = snd (between_body gap (b, n) i)"
  unfolding between_body_def
  by (simp add: alike_map_x [where h = "\<lambda>v. jadd v (jmul gap (Fin n))"])

lemma alike_foldl_between:
  "alike X Y a b \<Longrightarrow> set idxs \<subseteq> X \<Longrightarrow>
   alike X Y (fst (foldl (between_body gap) (a, n) idxs)) (fst (foldl (between_body gap) (b, n) idxs))"
proof (induction idxs arbitrary: a b n)
  case Nil
  then show ?case by simp
next
  case (Cons i idxs)
  from Cons.prems have i: "i \<in> X" and rest: "set idxs \<subseteq> X" by simp_all
  obtain a' n' where a': "between_body gap (a, n) i = (a', n')" by (cases "between_body gap (a, n) i")
  obtain b' m' where b': "between_body gap (b, n) i = (b', m')" by (cases "between_body gap (b, n) i")
  from alike_between_body [OF Cons.prems(1) i, of gap n] a' b'
  have "alike X Y a' b'" and "n' = m'" by simp_all
  with Cons.IH [OF _ rest, of a' b' n'] a' b' show ?case by simp
qed

lemma length_spread_body: "length (fst (spread_body lead gap (a, t) i)) = length a"
  by (simp add: spread_body_def)

lemma alike_spread_body:
  "alike X Y a b \<Longrightarrow> i \<in> X \<Longrightarrow> i < length a \<Longrightarrow>
   alike X Y (fst (spread_body lead gap (a, t) i)) (fst (spread_body lead gap (b, t) i)) \<and>
   snd (spread_body lead gap (a, t) i) = snd (spread_body lead gap (b, t) i)"
proof -
  assume al: "alike X Y a b" and i: "i \<in> X" and len: "i < length a"
  from i have "insert i X = X" by auto
  with alike_set_x [OF al, where i = i and v = "jadd t lead"]
  have "alike X Y (a[i := (a ! i)\<lparr>child_x := jadd t lead\<rparr>]) (b[i := (b ! i)\<lparr>child_x := jadd t lead\<rparr>])"
    by simp
  moreover from al len have "child_width (a ! i) = child_width (b ! i)" by (rule alike_width)
  ultimately show ?thesis by (simp add: spread_body_def)
qed

lemma alike_foldl_spread:
  "alike X Y a b \<Longrightarrow> set idxs \<subseteq> X \<Longrightarrow> \<forall>i \<in> set idxs. i < length a \<Longrightarrow>
   alike X Y (fst (foldl (spread_body lead gap) (a, t) idxs))
     (fst (foldl (spread_body lead gap) (b, t) idxs))"
proof (induction idxs arbitrary: a b t)
  case Nil
  then show ?case by simp
next
  case (Cons i idxs)
  from Cons.prems have i: "i \<in> X" and rest: "set idxs \<subseteq> X" and len: "i < length a"
    and lens: "\<forall>j \<in> set idxs. j < length a" by simp_all
  obtain a' t' where a': "spread_body lead gap (a, t) i = (a', t')"
    by (cases "spread_body lead gap (a, t) i")
  obtain b' u' where b': "spread_body lead gap (b, t) i = (b', u')"
    by (cases "spread_body lead gap (b, t) i")
  from alike_spread_body [OF Cons.prems(1) i len, of lead gap t] a' b'
  have al: "alike X Y a' b'" and "t' = u'" by simp_all
  from length_spread_body [of lead gap a t i] a' have "length a' = length a" by simp
  with lens have "\<forall>j \<in> set idxs. j < length a'" by simp
  from Cons.IH [OF al rest this, of t'] a' b' \<open>t' = u'\<close> show ?case by simp
qed

lemma erased_eq_iff:
  fixes s s' :: "'a wrap_state"
  shows "s\<lparr>ws_items := []\<rparr> = s'\<lparr>ws_items := []\<rparr> \<longleftrightarrow>
     maxChildHeight s = maxChildHeight s' \<and> ws_x s = ws_x s' \<and> ws_y s = ws_y s' \<and>
     firstLineElementID s = firstLineElementID s'"
  by (cases s, cases s') simp

lemma wrap_state_eqI:
  fixes s s' :: "'a wrap_state"
  shows "s\<lparr>ws_items := []\<rparr> = s'\<lparr>ws_items := []\<rparr> \<Longrightarrow> ws_items s = ws_items s' \<Longrightarrow> s = s'"
  by (cases s, cases s') simp

lemma wrap_step_alike:
  fixes s s' :: "'a wrap_state"
  assumes fill: "\<And>x first idx a b. alike {..<Suc idx} {..<Suc idx} a b \<Longrightarrow> idx < length a \<Longrightarrow>
            alike {..<Suc idx} {..<Suc idx} (fill x first idx a) (fill x first idx b)"
    and al: "alike {..<k} {..<k} (ws_items s) (ws_items s')"
    and sc: "s\<lparr>ws_items := []\<rparr> = s'\<lparr>ws_items := []\<rparr>"
    and k: "k < length (ws_items s)"
  shows "alike {..<Suc k} {..<Suc k} (ws_items (wrap_step fill rootWidth s k))
           (ws_items (wrap_step fill rootWidth s' k)) \<and>
         (wrap_step fill rootWidth s k)\<lparr>ws_items := []\<rparr> =
           (wrap_step fill rootWidth s' k)\<lparr>ws_items := []\<rparr>"
proof -
  from sc have scal: "maxChildHeight s = maxChildHeight s'" "ws_x s = ws_x s'" "ws_y s = ws_y s'"
    "firstLineElementID s = firstLineElementID s'"
    by (simp_all add: erased_eq_iff)
  from al k have w: "child_width (ws_items s ! k) = child_width (ws_items s' ! k)"
    by (rule alike_width)
  from al k have h: "child_height (ws_items s ! k) = child_height (ws_items s' ! k)"
    by (rule alike_height)
  let ?a1 = "(ws_items s)[k := (ws_items s ! k)\<lparr>child_x := Fin (ws_x s), child_y := Fin (ws_y s)\<rparr>]"
  let ?b1 = "(ws_items s')[k := (ws_items s' ! k)\<lparr>child_x := Fin (ws_x s), child_y := Fin (ws_y s)\<rparr>]"
  have S: "{..<Suc k} = insert k {..<k}" by (rule lessThan_Suc)
  from alike_set_xy [OF al, where i = k and v = "Fin (ws_x s)" and w = "Fin (ws_y s)"] S
  have one: "alike {..<Suc k} {..<Suc k} ?a1 ?b1" by simp
  from k have k1: "k < length ?a1" by simp
  let ?a2 = "fill (ws_x s) (firstLineElementID s) k ?a1"
  let ?b2 = "fill (ws_x s) (firstLineElementID s) k ?b1"
  from fill [OF one k1] have two: "alike {..<Suc k} {..<Suc k} ?a2 ?b2" .
  have "insert k {..<Suc k} = {..<Suc k}" by auto
  with alike_set_xy [OF two, where i = k and v = "Fin 0" and w = "Fin (ws_y s + maxChildHeight s)"]
  have three: "alike {..<Suc k} {..<Suc k}
      (?a2[k := (?a2 ! k)\<lparr>child_x := Fin 0, child_y := Fin (ws_y s + maxChildHeight s)\<rparr>])
      (?b2[k := (?b2 ! k)\<lparr>child_x := Fin 0, child_y := Fin (ws_y s + maxChildHeight s)\<rparr>])"
    by simp
  show ?thesis
  proof (cases "ws_x s + child_width (ws_items s ! k) > rootWidth")
    case True
    with three w h scal show ?thesis
      by (simp add: wrap_step_def Let_def erased_eq_iff)
  next
    case False
    with one w h scal show ?thesis
      by (simp add: wrap_step_def Let_def erased_eq_iff)
  qed
qed


lemma foldl_wrap_step_alike:
  fixes s s' :: "'a wrap_state"
  assumes keep: "\<And>x first idx its. map unplaced (fill x first idx its) = map unplaced its"
    and fill: "\<And>x first idx a b. alike {..<Suc idx} {..<Suc idx} a b \<Longrightarrow> idx < length a \<Longrightarrow>
            alike {..<Suc idx} {..<Suc idx} (fill x first idx a) (fill x first idx b)"
    and al: "alike {} {} (ws_items s) (ws_items s')"
    and sc: "s\<lparr>ws_items := []\<rparr> = s'\<lparr>ws_items := []\<rparr>"
  shows "m \<le> length (ws_items s) \<Longrightarrow>
     alike {..<m} {..<m} (ws_items (foldl (wrap_step fill rootWidth) s [0..<m]))
        (ws_items (foldl (wrap_step fill rootWidth) s' [0..<m])) \<and>
     (foldl (wrap_step fill rootWidth) s [0..<m])\<lparr>ws_items := []\<rparr> =
        (foldl (wrap_step fill rootWidth) s' [0..<m])\<lparr>ws_items := []\<rparr>"
proof (induction m)
  case 0
  from al sc show ?case by simp
next
  case (Suc m)
  then have m: "m \<le> length (ws_items s)" and lt: "m < length (ws_items s)" by simp_all
  let ?t = "foldl (wrap_step fill rootWidth) s [0..<m]"
  let ?t' = "foldl (wrap_step fill rootWidth) s' [0..<m]"
  from Suc.IH [OF m] have ih: "alike {..<m} {..<m} (ws_items ?t) (ws_items ?t')"
    and ihs: "?t\<lparr>ws_items := []\<rparr> = ?t'\<lparr>ws_items := []\<rparr>" by simp_all
  have "map unplaced (ws_items ?t) = map unplaced (ws_items s)"
    by (rule unplaced_foldl_wrap_step [OF keep])
  then have "length (ws_items ?t) = length (ws_items s)"
    by (metis length_map)
  with lt have k: "m < length (ws_items ?t)" by simp
  from wrap_step_alike [OF fill ih ihs k, where rootWidth = rootWidth] show ?case
    by simp
qed

lemma wrap_loop_cong:
  assumes keep: "\<And>x first idx its. map unplaced (fill x first idx its) = map unplaced its"
    and fill: "\<And>x first idx a b. alike {..<Suc idx} {..<Suc idx} a b \<Longrightarrow> idx < length a \<Longrightarrow>
            alike {..<Suc idx} {..<Suc idx} (fill x first idx a) (fill x first idx b)"
    and un: "map unplaced a = map unplaced b"
  shows "wrap_loop fill rootWidth a = wrap_loop fill rootWidth b"
proof -
  let ?s = "\<lparr>ws_items = a, maxChildHeight = 0, ws_x = 0, ws_y = 0, firstLineElementID = 0\<rparr>"
  let ?s' = "\<lparr>ws_items = b, maxChildHeight = 0, ws_x = 0, ws_y = 0, firstLineElementID = 0\<rparr>"
  from un have len: "length a = length b" by (metis length_map)
  from un have al: "alike {} {} (ws_items ?s) (ws_items ?s')" by (simp add: alike_def)
  have sc: "?s\<lparr>ws_items := []\<rparr> = ?s'\<lparr>ws_items := []\<rparr>" by simp
  have le: "length a \<le> length (ws_items ?s)" by simp
  let ?t = "foldl (wrap_step fill rootWidth) ?s [0..<length a]"
  let ?t' = "foldl (wrap_step fill rootWidth) ?s' [0..<length a]"
  from foldl_wrap_step_alike [OF keep fill al sc le, where rootWidth = rootWidth]
  have r: "alike {..<length a} {..<length a} (ws_items ?t) (ws_items ?t')"
    and rs: "?t\<lparr>ws_items := []\<rparr> = ?t'\<lparr>ws_items := []\<rparr>" by simp_all
  have "map unplaced (ws_items ?t) = map unplaced (ws_items ?s)"
    by (rule unplaced_foldl_wrap_step [OF keep])
  then have "length (ws_items ?t) = length a"
    by (metis length_map wrap_state.select_convs(1))
  with r have "alike {..<length (ws_items ?t)} {..<length (ws_items ?t)} (ws_items ?t) (ws_items ?t')"
    by simp
  then have "ws_items ?t = ws_items ?t'" by (rule alike_all_eq)
  with rs have "?t = ?t'" by (rule wrap_state_eqI)
  with len show ?thesis by (simp add: wrap_loop_def)
qed

lemma upt_below: "set [first..<Suc idx] \<subseteq> {..<Suc idx}"
  by auto

lemma upt_in_range: "idx < length a \<Longrightarrow> \<forall>i \<in> set [first..<Suc idx]. i < length a"
  by auto

lemma fill_add_x_alike:
  "alike {..<Suc idx} {..<Suc idx} a b \<Longrightarrow>
   alike {..<Suc idx} {..<Suc idx} (foldl (add_x offset) a [first..<Suc idx])
     (foldl (add_x offset) b [first..<Suc idx])"
  by (rule alike_foldl_add_x) (assumption, rule upt_below)

lemma fill_between_alike:
  "alike {..<Suc idx} {..<Suc idx} a b \<Longrightarrow>
   alike {..<Suc idx} {..<Suc idx} (fst (foldl (between_body gap) (a, n) [first..<Suc idx]))
     (fst (foldl (between_body gap) (b, n) [first..<Suc idx]))"
  by (rule alike_foldl_between) (assumption, rule upt_below)

lemma fill_spread_alike:
  "alike {..<Suc idx} {..<Suc idx} a b \<Longrightarrow> idx < length a \<Longrightarrow>
   alike {..<Suc idx} {..<Suc idx} (fst (foldl (spread_body lead gap) (a, t) [first..<Suc idx]))
     (fst (foldl (spread_body lead gap) (b, t) [first..<Suc idx]))"
  by (rule alike_foldl_spread) (assumption, rule upt_below, rule upt_in_range)

lemma unplaced_fst_foldl_between:
  "map unplaced (fst (foldl (between_body gap) (its, n) idxs)) = map unplaced its"
  using unplaced_foldl_between [of gap "(its, n)" idxs] by simp

lemma unplaced_fst_foldl_spread:
  "map unplaced (fst (foldl (spread_body lead gap) (its, t) idxs)) = map unplaced its"
  using unplaced_foldl_spread [of lead gap "(its, t)" idxs] by simp

lemma alignRowWrapEnd_cong:
  assumes "map unplaced a = map unplaced b"
  shows "alignRowWrapEnd rootWidth a = alignRowWrapEnd rootWidth b"
proof -
  from assms have len: "length a = length b" by (metis length_map)
  have "wrap_loop (\<lambda>x first idx its. foldl (add_x (Fin (rootWidth - x))) its [first..<Suc idx]) rootWidth a =
        wrap_loop (\<lambda>x first idx its. foldl (add_x (Fin (rootWidth - x))) its [first..<Suc idx]) rootWidth b"
    by (rule wrap_loop_cong [OF _ _ assms]) (rule unplaced_foldl_add_x, rule fill_add_x_alike)
  with len show ?thesis by (simp only: alignRowWrapEnd_def)
qed

lemma alignRowWrapCenter_cong:
  assumes "map unplaced a = map unplaced b"
  shows "alignRowWrapCenter rootWidth a = alignRowWrapCenter rootWidth b"
proof -
  from assms have len: "length a = length b" by (metis length_map)
  have "wrap_loop (\<lambda>x first idx its. foldl (add_x (Fin ((rootWidth - x) / 2))) its [first..<Suc idx]) rootWidth a =
        wrap_loop (\<lambda>x first idx its. foldl (add_x (Fin ((rootWidth - x) / 2))) its [first..<Suc idx]) rootWidth b"
    by (rule wrap_loop_cong [OF _ _ assms]) (rule unplaced_foldl_add_x, rule fill_add_x_alike)
  with len show ?thesis by (simp only: alignRowWrapCenter_def)
qed

lemma alignRowWrapSpaceBetween_cong:
  assumes "map unplaced a = map unplaced b"
  shows "alignRowWrapSpaceBetween rootWidth a = alignRowWrapSpaceBetween rootWidth b"
proof -
  from assms have len: "length a = length b" by (metis length_map)
  have "wrap_loop (\<lambda>x first idx its.
                  let space = rootWidth - x;
                      lineAmount = real_of_int (int idx - int first - 1)
                  in fst (foldl (between_body (jdiv space lineAmount)) (its, 0) [first..<Suc idx]))
               rootWidth a =
        wrap_loop (\<lambda>x first idx its.
                  let space = rootWidth - x;
                      lineAmount = real_of_int (int idx - int first - 1)
                  in fst (foldl (between_body (jdiv space lineAmount)) (its, 0) [first..<Suc idx]))
               rootWidth b"
    unfolding Let_def
    by (rule wrap_loop_cong [OF _ _ assms]) (rule unplaced_fst_foldl_between, rule fill_between_alike)
  with len show ?thesis by (simp only: alignRowWrapSpaceBetween_def)
qed

lemma alignRowWrapSpaceAround_cong:
  assumes "map unplaced a = map unplaced b"
  shows "alignRowWrapSpaceAround rootWidth a = alignRowWrapSpaceAround rootWidth b"
proof -
  from assms have len: "length a = length b" by (metis length_map)
  have "wrap_loop (\<lambda>x first idx its.
                  let space = rootWidth - x;
                      lineAmount = real_of_int (int idx - int first)
                  in fst (foldl (spread_body (jdiv (space / 2) lineAmount) (jdiv space lineAmount))
                            (its, Fin 0) [first..<Suc idx]))
               rootWidth a =
        wrap_loop (\<lambda>x first idx its.
                  let space = rootWidth - x;
                      lineAmount = real_of_int (int idx - int first)
                  in fst (foldl (spread_body (jdiv (space / 2) lineAmount) (jdiv space lineAmount))
                            (its, Fin 0) [first..<Suc idx]))
               rootWidth b"
    unfolding Let_def
    by (rule wrap_loop_cong [OF _ _ assms]) (rule unplaced_fst_foldl_spread, rule fill_spread_alike)
  with len show ?thesis by (simp only: alignRowWrapSpaceAround_def)
qed

lemma alignRowWrapSpaceEvenly_cong:
  assumes "map unplaced a = map unplaced b"
  shows "alignRowWrapSpaceEvenly rootWidth a = alignRowWrapSpaceEvenly rootWidth b"
proof -
  from assms have len: "length a = length b" by (metis length_map)
  have "wrap_loop (\<lambda>x first idx its.
                  let space = rootWidth - x;
                      lineAmount = real_of_int (int idx - int first)
                  in fst (foldl (spread_body (jdiv space (lineAmount + 1)) (jdiv space (lineAmount + 1)))
                            (its, Fin 0) [first..<Suc idx]))
               rootWidth a =
        wrap_loop (\<lambda>x first idx its.
                  let space = rootWidth - x;
                      lineAmount = real_of_int (int idx - int first)
                  in fst (foldl (spread_body (jdiv space (lineAmount + 1)) (jdiv space (lineAmount + 1)))
                            (its, Fin 0) [first..<Suc idx]))
               rootWidth b"
    unfolding Let_def
    by (rule wrap_loop_cong [OF _ _ assms]) (rule unplaced_fst_foldl_spread, rule fill_spread_alike)
  with len show ?thesis by (simp only: alignRowWrapSpaceEvenly_def)
qed

lemma unplaced_eq_set_xy:
  "unplaced c = unplaced d \<Longrightarrow> c\<lparr>child_x := v, child_y := w\<rparr> = d\<lparr>child_x := v, child_y := w\<rparr>"
  by (rule item_eqI) simp_all

lemma wrapStart_from_cong:
  "map unplaced a = map unplaced b \<Longrightarrow>
   wrapStart_from rootWidth m x0 y0 a = wrapStart_from rootWidth m x0 y0 b"
proof (induction a arbitrary: b m x0 y0)
  case Nil
  then show ?case by simp
next
  case (Cons c cs)
  then obtain d ds where b: "b = d # ds" by (cases b) simp_all
  with Cons.prems have u: "unplaced c = unplaced d" and rest: "map unplaced cs = map unplaced ds"
    by simp_all
  from u have w: "child_width c = child_width d" by (metis unplaced_width)
  from u have h: "child_height c = child_height d" by (metis unplaced_height)
  from Cons.IH [OF rest] b w h unplaced_eq_set_xy [OF u] show ?case by simp
qed

lemma alignRowWrap_cong:
  assumes u: "map unplaced a = map unplaced b" and ns: "justify \<noteq> ''stretch''"
  shows "alignRowWrap rootWidth justify a = alignRowWrap rootWidth justify b"
proof -
  note c = alignRowWrapEnd_cong [OF u, of rootWidth] alignRowWrapCenter_cong [OF u, of rootWidth]
    alignRowWrapSpaceBetween_cong [OF u, of rootWidth] alignRowWrapSpaceAround_cong [OF u, of rootWidth]
    alignRowWrapSpaceEvenly_cong [OF u, of rootWidth] wrapStart_from_cong [OF u, of rootWidth 0 0 0]
  from c ns show ?thesis
    unfolding alignRowWrap_def alignRowWrapStart_def by simp
qed

lemma alignRowWrap_idem:
  "alignRowWrap rootWidth justify (alignRowWrap rootWidth justify items) =
   alignRowWrap rootWidth justify items"
proof (cases "justify = ''stretch''")
  case True
  then show ?thesis by (simp add: alignRowWrap_def)
next
  case False
  have "map unplaced (alignRowWrap rootWidth justify items) = map unplaced items"
    by (rule unplaced_alignRowWrap)
  from alignRowWrap_cong [OF this False] show ?thesis .
qed


lemma widths_forEach_x: "map child_width (forEach_x put nxt x0 items) = map child_width items"
  by (induction items arbitrary: x0) simp_all

lemma forEach_x_idem:
  assumes "\<And>x c v. put x (c\<lparr>child_x := v\<rparr>) = put x c"
    and "\<And>x c v. nxt x (c\<lparr>child_x := v\<rparr>) = nxt x c"
  shows "forEach_x put nxt x0 (forEach_x put nxt x0 items) = forEach_x put nxt x0 items"
  by (induction items arbitrary: x0) (simp_all add: assms)

lemma alignNowrap_idem:
  "alignNowrap rootWidth justify (alignNowrap rootWidth justify items) =
   alignNowrap rootWidth justify items"
  by (simp add: alignNowrap_def Let_def foldl_add_width widths_forEach_x forEach_x_length
      forEach_x_idem rev_map)

lemma column_from_idem: "column_from y0 (column_from y0 items) = column_from y0 items"
  by (induction items arbitrary: y0) simp_all

lemma alignFlexColumn_idem: "alignFlexColumn (alignFlexColumn items) = alignFlexColumn items"
  by (simp add: alignFlexColumn_def column_from_idem)

lemma alike_mono: "alike X Y a b \<Longrightarrow> X' \<subseteq> X \<Longrightarrow> Y' \<subseteq> Y \<Longrightarrow> alike X' Y' a b"
  by (auto simp: alike_def)

lemma reverse_erased_eq_iff:
  fixes s s' :: "'a reverse_state"
  shows "s\<lparr>rs_items := []\<rparr> = s'\<lparr>rs_items := []\<rparr> \<longleftrightarrow>
     rs_maxChildHeight s = rs_maxChildHeight s' \<and> rs_x s = rs_x s' \<and> rs_y s = rs_y s' \<and>
     rows s = rows s'"
  by (cases s, cases s') simp

lemma reverse_state_eqI:
  fixes s s' :: "'a reverse_state"
  shows "s\<lparr>rs_items := []\<rparr> = s'\<lparr>rs_items := []\<rparr> \<Longrightarrow> rs_items s = rs_items s' \<Longrightarrow> s = s'"
  by (cases s, cases s') simp

lemma reverse_step_alike:
  fixes s s' :: "'a reverse_state"
  assumes al: "alike {..<k} Y (rs_items s) (rs_items s')"
    and sc: "s\<lparr>rs_items := []\<rparr> = s'\<lparr>rs_items := []\<rparr>"
    and k: "k < length (rs_items s)"
  shows "alike {..<Suc k} Y (rs_items (reverse_step rootWidth s k))
           (rs_items (reverse_step rootWidth s' k)) \<and>
         (reverse_step rootWidth s k)\<lparr>rs_items := []\<rparr> =
           (reverse_step rootWidth s' k)\<lparr>rs_items := []\<rparr>"
proof -
  from sc have scal: "rs_maxChildHeight s = rs_maxChildHeight s'" "rs_x s = rs_x s'"
    "rs_y s = rs_y s'" "rows s = rows s'"
    by (simp_all add: reverse_erased_eq_iff)
  from al k have w: "child_width (rs_items s ! k) = child_width (rs_items s' ! k)"
    by (rule alike_width)
  from al k have h: "child_height (rs_items s ! k) = child_height (rs_items s' ! k)"
    by (rule alike_height)
  have S: "{..<Suc k} = insert k {..<k}" by (rule lessThan_Suc)
  from alike_set_x [OF al, where i = k] S
  have one: "alike {..<Suc k} Y ((rs_items s)[k := (rs_items s ! k)\<lparr>child_x := v\<rparr>])
      ((rs_items s')[k := (rs_items s' ! k)\<lparr>child_x := v\<rparr>])" for v
    by simp
  from one w h scal show ?thesis
    by (simp add: reverse_step_def Let_def reverse_erased_eq_iff)
qed

lemma unplaced_reverse_steps_length:
  "length (rs_items (foldl (reverse_step rootWidth) s idxs)) = length (rs_items s)"
  by (metis length_map unplaced_foldl_reverse_step)

lemma foldl_reverse_step_alike:
  fixes s s' :: "'a reverse_state"
  assumes al: "alike {} Y (rs_items s) (rs_items s')"
    and sc: "s\<lparr>rs_items := []\<rparr> = s'\<lparr>rs_items := []\<rparr>"
  shows "m \<le> length (rs_items s) \<Longrightarrow>
     alike {..<m} Y (rs_items (foldl (reverse_step rootWidth) s [0..<m]))
        (rs_items (foldl (reverse_step rootWidth) s' [0..<m])) \<and>
     (foldl (reverse_step rootWidth) s [0..<m])\<lparr>rs_items := []\<rparr> =
        (foldl (reverse_step rootWidth) s' [0..<m])\<lparr>rs_items := []\<rparr>"
proof (induction m)
  case 0
  from al sc show ?case by simp
next
  case (Suc m)
  then have m: "m \<le> length (rs_items s)" and lt: "m < length (rs_items s)" by simp_all
  let ?t = "foldl (reverse_step rootWidth) s [0..<m]"
  let ?t' = "foldl (reverse_step rootWidth) s' [0..<m]"
  from Suc.IH [OF m] have ih: "alike {..<m} Y (rs_items ?t) (rs_items ?t')"
    and ihs: "?t\<lparr>rs_items := []\<rparr> = ?t'\<lparr>rs_items := []\<rparr>" by simp_all
  from lt have k: "m < length (rs_items ?t)" by (simp add: unplaced_reverse_steps_length)
  from reverse_step_alike [OF ih ihs k, where rootWidth = rootWidth] show ?case
    by simp
qed

lemma reverse_step_rows:
  assumes "rows s \<noteq> []" "set (concat (rows s)) = {..<k}"
  shows "rows (reverse_step rootWidth s k) \<noteq> [] \<and>
         set (concat (rows (reverse_step rootWidth s k))) = {..<Suc k}"
proof -
  from assms(1) have "concat (rows s) = concat (butlast (rows s)) @ last (rows s)"
    by (metis append_butlast_last_id concat_append concat.simps(1) concat.simps(2) append_Nil2)
  then have "set (concat (rows s)) = set (concat (butlast (rows s))) \<union> set (last (rows s))"
    by (metis set_append)
  then have a: "set (concat (butlast (rows s) @ [last (rows s) @ [k]])) = insert k (set (concat (rows s)))"
    by (simp del: set_concat)
  have b: "set (concat (rows s @ [[k]])) = insert k (set (concat (rows s)))"
    by (simp del: set_concat)
  from a b assms(2) show ?thesis
    by (simp add: reverse_step_def Let_def lessThan_Suc del: set_concat)
qed

lemma foldl_reverse_step_rows:
  assumes "rows s \<noteq> []" "set (concat (rows s)) = {}"
  shows "rows (foldl (reverse_step rootWidth) s [0..<m]) \<noteq> [] \<and>
         set (concat (rows (foldl (reverse_step rootWidth) s [0..<m]))) = {..<m}"
proof (induction m)
  case 0
  from assms show ?case by (simp del: set_concat)
next
  case (Suc m)
  from reverse_step_rows [of "foldl (reverse_step rootWidth) s [0..<m]" m rootWidth] Suc
  show ?case by (simp del: set_concat)
qed


lemma alike_reverse_row_inner:
  "alike X Y a b \<Longrightarrow> \<forall>i \<in> set row. i < length a \<Longrightarrow>
   alike X (Y \<union> set row)
     (fst (foldl (\<lambda>(its, m) i.
                (its[i := (its ! i)\<lparr>child_y := Fin prevMax\<rparr>],
                 if m < child_height (its ! i) then child_height (its ! i) else m)) (a, m0) row))
     (fst (foldl (\<lambda>(its, m) i.
                (its[i := (its ! i)\<lparr>child_y := Fin prevMax\<rparr>],
                 if m < child_height (its ! i) then child_height (its ! i) else m)) (b, m0) row)) \<and>
   snd (foldl (\<lambda>(its, m) i.
                (its[i := (its ! i)\<lparr>child_y := Fin prevMax\<rparr>],
                 if m < child_height (its ! i) then child_height (its ! i) else m)) (a, m0) row) =
   snd (foldl (\<lambda>(its, m) i.
                (its[i := (its ! i)\<lparr>child_y := Fin prevMax\<rparr>],
                 if m < child_height (its ! i) then child_height (its ! i) else m)) (b, m0) row)"
proof (induction row arbitrary: a b m0 Y)
  case Nil
  then show ?case by simp
next
  case (Cons i row)
  let ?F = "\<lambda>(its, m) i.
                (its[i := (its ! i)\<lparr>child_y := Fin prevMax\<rparr>],
                 if m < child_height (its ! i) then child_height (its ! i) else m)"
  from Cons.prems have i: "i < length a" and rest: "\<forall>j \<in> set row. j < length a" by simp_all
  from Cons.prems(1) i have h: "child_height (a ! i) = child_height (b ! i)" by (rule alike_height)
  let ?a = "a[i := (a ! i)\<lparr>child_y := Fin prevMax\<rparr>]"
  let ?b = "b[i := (b ! i)\<lparr>child_y := Fin prevMax\<rparr>]"
  define m1 where "m1 = (if m0 < child_height (a ! i) then child_height (a ! i) else m0)"
  from h have m1b: "m1 = (if m0 < child_height (b ! i) then child_height (b ! i) else m0)"
    by (simp add: m1_def)
  from alike_set_y [OF Cons.prems(1), where i = i and v = "Fin prevMax"]
  have al: "alike X (insert i Y) ?a ?b" .
  from rest have rest': "\<forall>j \<in> set row. j < length ?a" by simp
  have Yeq: "Y \<union> set (i # row) = insert i Y \<union> set row" by auto
  have ea: "foldl ?F (a, m0) (i # row) = foldl ?F (?a, m1) row" by (simp add: m1_def)
  have eb: "foldl ?F (b, m0) (i # row) = foldl ?F (?b, m1) row" by (simp add: m1b)
  from Cons.IH [OF al rest', of m1] show ?case
    unfolding ea eb Yeq .
qed

lemma alike_reverse_row:
  "alike X Y a b \<Longrightarrow> \<forall>i \<in> set row. i < length a \<Longrightarrow>
   alike X (Y \<union> set row) (fst (reverse_row (a, p) row)) (fst (reverse_row (b, p) row)) \<and>
   snd (reverse_row (a, p) row) = snd (reverse_row (b, p) row)"
  unfolding reverse_row_def prod.case by (rule alike_reverse_row_inner)

lemma length_reverse_row: "length (fst (reverse_row (a, p) row)) = length a"
  using unplaced_reverse_row [of "(a, p)" row] by (metis fst_conv length_map)

lemma alike_foldl_reverse_row:
  "alike X Y a b \<Longrightarrow> \<forall>i \<in> set (concat rws). i < length a \<Longrightarrow>
   alike X (Y \<union> set (concat rws)) (fst (foldl reverse_row (a, p) rws))
     (fst (foldl reverse_row (b, p) rws))"
proof (induction rws arbitrary: a b p Y)
  case Nil
  then show ?case by simp
next
  case (Cons row rws)
  from Cons.prems have r: "\<forall>i \<in> set row. i < length a"
    and rs: "\<forall>i \<in> set (concat rws). i < length a" by simp_all
  obtain a' p' where a': "reverse_row (a, p) row = (a', p')" by (cases "reverse_row (a, p) row")
  obtain b' q' where b': "reverse_row (b, p) row = (b', q')" by (cases "reverse_row (b, p) row")
  from alike_reverse_row [OF Cons.prems(1) r, of p] a' b'
  have al: "alike X (Y \<union> set row) a' b'" and pq: "p' = q'" by simp_all
  from length_reverse_row [of a p row] a' have "length a' = length a" by simp
  with rs have rs': "\<forall>i \<in> set (concat rws). i < length a'" by simp
  have Yeq: "Y \<union> set row \<union> set (concat rws) = Y \<union> set (concat (row # rws))" by auto
  from Cons.IH [OF al rs', of p'] a' b' pq Yeq show ?case by (simp del: set_concat)
qed

lemma alignRowReverse_cong:
  assumes un: "map unplaced a = map unplaced b"
  shows "alignRowReverse rootWidth justify a = alignRowReverse rootWidth justify b"
proof -
  let ?s = "\<lparr>rs_items = a, rs_maxChildHeight = 0, rs_x = 0, rs_y = 0, rows = [[]]\<rparr>"
  let ?s' = "\<lparr>rs_items = b, rs_maxChildHeight = 0, rs_x = 0, rs_y = 0, rows = [[]]\<rparr>"
  let ?t = "foldl (reverse_step rootWidth) ?s [0..<length a]"
  let ?t' = "foldl (reverse_step rootWidth) ?s' [0..<length a]"
  from un have len: "length a = length b" by (metis length_map)
  from un have al: "alike {} {} (rs_items ?s) (rs_items ?s')" by (simp add: alike_def)
  have sc: "?s\<lparr>rs_items := []\<rparr> = ?s'\<lparr>rs_items := []\<rparr>" by simp
  have le: "length a \<le> length (rs_items ?s)" by simp
  from foldl_reverse_step_alike [OF al sc le, where rootWidth = rootWidth]
  have r: "alike {..<length a} {} (rs_items ?t) (rs_items ?t')"
    and rs: "?t\<lparr>rs_items := []\<rparr> = ?t'\<lparr>rs_items := []\<rparr>" by simp_all
  from rs have rows_eq: "rows ?t = rows ?t'" by (simp add: reverse_erased_eq_iff)
  have "rows ?s \<noteq> []" and "set (concat (rows ?s)) = {}" by simp_all
  from foldl_reverse_step_rows [OF this, of rootWidth "length a"]
  have cover: "set (concat (rows ?t)) = {..<length a}" by simp
  have lt: "length (rs_items ?t) = length a"
    by (simp add: unplaced_reverse_steps_length)
  from cover have cover': "set (concat (rev (rows ?t))) = {..<length a}"
    by (metis set_concat set_rev)
  with lt have bound: "\<forall>i \<in> set (concat (rev (rows ?t))). i < length (rs_items ?t)"
    by simp
  from alike_foldl_reverse_row [OF r bound, of 0] cover'
  have fin: "alike {..<length a} {..<length a}
      (fst (foldl reverse_row (rs_items ?t, 0) (rev (rows ?t))))
      (fst (foldl reverse_row (rs_items ?t', 0) (rev (rows ?t))))"
    by (simp del: set_concat)
  have "map unplaced (fst (foldl reverse_row (rs_items ?t, 0) (rev (rows ?t)))) =
      map unplaced (rs_items ?t)"
    using unplaced_foldl_reverse_row [of "(rs_items ?t, 0)" "rev (rows ?t)"] by simp
  then have "length (fst (foldl reverse_row (rs_items ?t, 0) (rev (rows ?t)))) = length a"
    using lt by (metis length_map)
  with fin have "fst (foldl reverse_row (rs_items ?t, 0) (rev (rows ?t))) =
      fst (foldl reverse_row (rs_items ?t', 0) (rev (rows ?t)))"
    using alike_all_eq by metis
  with rows_eq len show ?thesis
    by (simp add: alignRowReverse_def Let_def)
qed

lemma alignRowReverse_idem:
  "alignRowReverse rootWidth justify (alignRowReverse rootWidth justify items) =
   alignRowReverse rootWidth justify items"
  by (rule alignRowReverse_cong) (rule unplaced_alignRowReverse)

lemma alignFlexRow_idem:
  "alignFlexRow rootWidth wrap justify (alignFlexRow rootWidth wrap justify items) =
   alignFlexRow rootWidth wrap justify items"
  by (simp add: alignFlexRow_def alignRowReverse_idem alignRowWrap_idem alignNowrap_idem)

lemma FlexAlignController_update_idem:
  "FlexAlignController_update rootWidth direction wrap justify items = Inr placed \<Longrightarrow>
   FlexAlignController_update rootWidth direction wrap justify placed = Inr placed"
  by (auto simp: FlexAlignController_update_def alignFlexRow_idem alignFlexColumn_idem
      split: if_splits)


lemma sizeControlType_cong:
  "layout_style l = layout_style l' \<Longrightarrow> content_children l = content_children l' \<Longrightarrow>
   sizeControlType l = sizeControlType l'"
  by (simp add: sizeControlType_def isItJustAText_def)

lemma wrapInnerText_content_only:
  "wrapInnerText tw pw l = l\<lparr>content_children := content_children (wrapInnerText tw pw l)\<rparr>"
  by (simp add: wrapInnerText_def Let_def split: dimension.splits SizeControl.splits
      list.splits content_child.splits)

lemma wrapInnerText_content_cong:
  assumes "layout_style l = layout_style l'" "content_children l = content_children l'"
  shows "content_children (wrapInnerText tw pw l) = content_children (wrapInnerText tw pw l')"
  using assms sizeControlType_cong [OF assms]
  by (simp add: wrapInnerText_def Let_def split: dimension.splits SizeControl.splits
      list.splits content_child.splits)

lemma wrapInnerText_content_idem:
  "content_children (wrapInnerText tw pw (wrapInnerText tw pw l)) =
   content_children (wrapInnerText tw pw l)"
  by (simp add: wrapInnerText_def Let_def sizeControlType_def isItJustAText_def
      split: dimension.splits list.splits content_child.splits)

lemma computedWidth_cong:
  assumes "layout_style l = layout_style l'" "content_children l = content_children l'"
    "parent_padding l = parent_padding l'"
  shows "computedWidth tw pw l = computedWidth tw pw l'"
  unfolding computedWidth_def assms sizeControlType_cong [OF assms(1,2)] by (rule refl)

lemma computedHeight_cong:
  assumes "layout_style l = layout_style l'" "content_children l = content_children l'"
    "parent_padding l = parent_padding l'"
  shows "computedHeight th ph l = computedHeight th ph l'"
  unfolding computedHeight_def assms sizeControlType_cong [OF assms(1,2)] by (rule refl)

lemma fitToSize_align_items_update:
  "fitToSize pw ph (l\<lparr>align_items := its\<rparr>) = (fitToSize pw ph l)\<lparr>align_items := its\<rparr>"
  by (simp add: fitToSize_def Let_def split: jsnum.splits)

lemma fitToSize_content_update:
  "fitToSize pw ph (l\<lparr>content_children := cs\<rparr>) = (fitToSize pw ph l)\<lparr>content_children := cs\<rparr>"
  by (simp add: fitToSize_def Let_def split: jsnum.splits)

lemma fitToSize_scale_only:
  "fitToSize pw ph l =
     l\<lparr>scale_x := scale_x (fitToSize pw ph l), scale_y := scale_y (fitToSize pw ph l)\<rparr>"
  by (simp add: fitToSize_def Let_def split: jsnum.splits)

lemma update_again_stop:
  assumes "parentWidth r = pw" "parentHeight r = ph"
    and "wrapInnerText tw pw r = r"
    and "width (layout_style r) \<noteq> Fixed (Pixels 0)" "height (layout_style r) \<noteq> Fixed (Pixels 0)"
    and "computedWidth tw pw r = 0 \<or> computedHeight th ph r = 0"
  shows "SizeController_update tw th pw ph r = (None, r\<lparr>visible := False\<rparr>)"
proof -
  from assms(1,2) have "r\<lparr>parentWidth := pw, parentHeight := ph\<rparr> = r" by simp
  with assms(3-) show ?thesis
    by (simp add: SizeController_update_def Let_def)
qed

lemma update_again:
  assumes "parentWidth r = pw" "parentHeight r = ph"
    and "wrapInnerText tw pw r = r"
    and "width (layout_style r) \<noteq> Fixed (Pixels 0)" "height (layout_style r) \<noteq> Fixed (Pixels 0)"
    and "computedWidth tw pw r \<noteq> 0" "computedHeight th ph r \<noteq> 0"
    and l2: "l2 = r\<lparr>size__width := computedWidth tw pw r, size__height := computedHeight th ph r,
                   scale_x := Fin (scaleX (layout_style r)), scale_y := Fin (scaleY (layout_style r))\<rparr>"
    and l3: "l3 = (if truthy (maxWidth (layout_style r)) \<or> truthy (maxHeight (layout_style r))
                 then fitToSize pw ph l2 else l2)"
    and res: "res = FlexAlignController_update (size__width l3) (flexDirection (layout_style r))
                 (flexWrap (layout_style r)) (justifyContent (layout_style r)) (align_items l3)"
  shows "SizeController_update tw th pw ph r =
     (case res of Inl e \<Rightarrow> (Some e, l3) | Inr placed \<Rightarrow> (None, l3\<lparr>align_items := placed\<rparr>))"
proof -
  from assms(1,2) have same: "r\<lparr>parentWidth := pw, parentHeight := ph\<rparr> = r" by simp
  show ?thesis
    unfolding SizeController_update_def Let_def same res l3 l2 assms(3)
    by (simp only: assms(4-7) if_False simp_thms)
qed

lemma update_idem:
  "SizeController_update tw th pw ph (snd (SizeController_update tw th pw ph l)) =
   SizeController_update tw th pw ph l"
proof (cases "width (layout_style l) = Fixed (Pixels 0) \<or> height (layout_style l) = Fixed (Pixels 0)")
  case True
  then show ?thesis by (simp add: SizeController_update_def Let_def)
next
  case False
  define l1 where "l1 = wrapInnerText tw pw (l\<lparr>parentWidth := pw, parentHeight := ph\<rparr>)"
  have st1: "layout_style l1 = layout_style l" and pw1: "parentWidth l1 = pw"
    and ph1: "parentHeight l1 = ph" and it1: "align_items l1 = align_items l"
    by (simp_all add: l1_def wrapInnerText_fields)
  have w1: "wrapInnerText tw pw l1 = l1"
  proof -
    have "content_children (wrapInnerText tw pw l1) = content_children l1"
      unfolding l1_def by (rule wrapInnerText_content_idem)
    with wrapInnerText_content_only [of tw pw l1] show ?thesis by simp
  qed
  have stable: "wrapInnerText tw pw r = r \<and> computedWidth tw pw r = computedWidth tw pw l1 \<and>
      computedHeight th ph r = computedHeight th ph l1"
    if "layout_style r = layout_style l1" "content_children r = content_children l1"
      "parent_padding r = parent_padding l1" for r
  proof -
    from that have "content_children (wrapInnerText tw pw r) = content_children (wrapInnerText tw pw l1)"
      by (intro wrapInnerText_content_cong)
    with w1 that have "content_children (wrapInnerText tw pw r) = content_children r" by simp
    with wrapInnerText_content_only [of tw pw r] have "wrapInnerText tw pw r = r" by simp
    moreover from that have "computedWidth tw pw r = computedWidth tw pw l1"
      by (intro computedWidth_cong)
    moreover from that have "computedHeight th ph r = computedHeight th ph l1"
      by (intro computedHeight_cong)
    ultimately show ?thesis by simp
  qed
  define l2 where "l2 = l1\<lparr>size__width := computedWidth tw pw l1, size__height := computedHeight th ph l1,
                   scale_x := Fin (scaleX (layout_style l)), scale_y := Fin (scaleY (layout_style l))\<rparr>"
  define l3 where "l3 = (if truthy (maxWidth (layout_style l)) \<or> truthy (maxHeight (layout_style l))
                 then fitToSize pw ph l2 else l2)"
  have first: "SizeController_update tw th pw ph l =
    (if computedWidth tw pw l1 = 0 \<or> computedHeight th ph l1 = 0 then (None, l1\<lparr>visible := False\<rparr>)
     else case FlexAlignController_update (size__width l3) (flexDirection (layout_style l))
                 (flexWrap (layout_style l)) (justifyContent (layout_style l)) (align_items l3) of
            Inl e \<Rightarrow> (Some e, l3)
          | Inr placed \<Rightarrow> (None, l3\<lparr>align_items := placed\<rparr>))"
    unfolding SizeController_update_def Let_def l1_def l2_def l3_def
    by (simp only: False if_False)
  show ?thesis
  proof (cases "computedWidth tw pw l1 = 0 \<or> computedHeight th ph l1 = 0")
    case True
    define r where "r = l1\<lparr>visible := False\<rparr>"
    from first True have r1: "SizeController_update tw th pw ph l = (None, r)"
      by (simp add: r_def)
    have "layout_style r = layout_style l1" "content_children r = content_children l1"
      "parent_padding r = parent_padding l1" by (simp_all add: r_def)
    from stable [OF this] have sr: "wrapInnerText tw pw r = r"
      and cw: "computedWidth tw pw r = computedWidth tw pw l1"
      and ch: "computedHeight th ph r = computedHeight th ph l1" by simp_all
    have pr: "parentWidth r = pw" "parentHeight r = ph" and sty: "layout_style r = layout_style l"
      by (simp_all add: r_def pw1 ph1 st1)
    from False sty have nz: "width (layout_style r) \<noteq> Fixed (Pixels 0)"
      "height (layout_style r) \<noteq> Fixed (Pixels 0)" by simp_all
    have "r\<lparr>visible := False\<rparr> = r" by (simp add: r_def)
    moreover from True cw ch have "computedWidth tw pw r = 0 \<or> computedHeight th ph r = 0" by simp
    from update_again_stop [OF pr sr nz this]
    have "SizeController_update tw th pw ph r = (None, r\<lparr>visible := False\<rparr>)" .
    ultimately have "SizeController_update tw th pw ph r = (None, r)" by simp
    with r1 show ?thesis by simp
  next
    case nonzero: False
    have l3_form: "l3 = l2\<lparr>scale_x := scale_x l3, scale_y := scale_y l3\<rparr>"
      using fitToSize_scale_only [of pw ph l2] by (simp add: l3_def)
    have l3_fields: "size__width l3 = computedWidth tw pw l1" "align_items l3 = align_items l"
      by (simp_all add: l3_def l2_def fitToSize_fields it1)
    have restore: "r\<lparr>size__width := computedWidth tw pw l1, size__height := computedHeight th ph l1,
                   scale_x := Fin (scaleX (layout_style l)), scale_y := Fin (scaleY (layout_style l))\<rparr>
                = l2\<lparr>align_items := align_items r\<rparr>"
      if "r = l3\<lparr>align_items := its\<rparr>" for r its
      by (subst that, subst that, subst l3_form) (simp add: l2_def)
    have again: "SizeController_update tw th pw ph r =
        (case FlexAlignController_update (computedWidth tw pw l1) (flexDirection (layout_style l))
                 (flexWrap (layout_style l)) (justifyContent (layout_style l)) its of
            Inl e \<Rightarrow> (Some e, r)
          | Inr placed \<Rightarrow> (None, r\<lparr>align_items := placed\<rparr>))"
      if rdef: "r = l3\<lparr>align_items := its\<rparr>" for r its
    proof -
      have base: "layout_style r = layout_style l1" "content_children r = content_children l1"
        "parent_padding r = parent_padding l1"
        by (simp_all add: rdef l3_def l2_def fitToSize_fields)
      from stable [OF base] have sr: "wrapInnerText tw pw r = r"
        and cw: "computedWidth tw pw r = computedWidth tw pw l1"
        and ch: "computedHeight th ph r = computedHeight th ph l1" by simp_all
      have pr: "parentWidth r = pw" "parentHeight r = ph" and sty: "layout_style r = layout_style l"
        by (simp_all add: rdef l3_def l2_def fitToSize_fields pw1 ph1 st1)
      from False sty have nz: "width (layout_style r) \<noteq> Fixed (Pixels 0)"
        "height (layout_style r) \<noteq> Fixed (Pixels 0)" by simp_all
      have items: "align_items r = its" by (simp add: rdef)
      have fit: "r = (if truthy (maxWidth (layout_style r)) \<or> truthy (maxHeight (layout_style r))
                 then fitToSize pw ph (l2\<lparr>align_items := its\<rparr>) else l2\<lparr>align_items := its\<rparr>)"
        by (simp add: sty) (simp add: rdef l3_def fitToSize_align_items_update)
      from nonzero cw ch have c0: "computedWidth tw pw r \<noteq> 0" "computedHeight th ph r \<noteq> 0"
        by simp_all
      from restore [OF rdef] items cw ch sty
      have two: "l2\<lparr>align_items := its\<rparr> =
          r\<lparr>size__width := computedWidth tw pw r, size__height := computedHeight th ph r,
                   scale_x := Fin (scaleX (layout_style r)), scale_y := Fin (scaleY (layout_style r))\<rparr>"
        by simp
      have res: "FlexAlignController_update (computedWidth tw pw l1) (flexDirection (layout_style l))
                 (flexWrap (layout_style l)) (justifyContent (layout_style l)) its =
          FlexAlignController_update (size__width r) (flexDirection (layout_style r))
                 (flexWrap (layout_style r)) (justifyContent (layout_style r)) (align_items r)"
        using l3_fields sty items by (simp add: rdef)
      from update_again [OF pr sr nz c0 two fit res] show ?thesis .
    qed
    show ?thesis
    proof (cases "FlexAlignController_update (size__width l3) (flexDirection (layout_style l))
                 (flexWrap (layout_style l)) (justifyContent (layout_style l)) (align_items l3)")
      case (Inl e)
      with first nonzero have r1: "SizeController_update tw th pw ph l = (Some e, l3)" by simp
      have "l3 = l3\<lparr>align_items := align_items l\<rparr>" using l3_fields by simp
      from again [OF this] Inl l3_fields
      have "SizeController_update tw th pw ph l3 = (Some e, l3)" by simp
      with r1 show ?thesis by simp
    next
      case (Inr placed)
      with first nonzero have r1: "SizeController_update tw th pw ph l = (None, l3\<lparr>align_items := placed\<rparr>)"
        by simp
      from Inr l3_fields have "FlexAlignController_update (computedWidth tw pw l1)
          (flexDirection (layout_style l)) (flexWrap (layout_style l)) (justifyContent (layout_style l))
          (align_items l) = Inr placed" by simp
      then have "FlexAlignController_update (computedWidth tw pw l1)
          (flexDirection (layout_style l)) (flexWrap (layout_style l)) (justifyContent (layout_style l))
          placed = Inr placed" by (rule FlexAlignController_update_idem)
      with again [OF refl, of placed]
      have "SizeController_update tw th pw ph (l3\<lparr>align_items := placed\<rparr>) =
          (None, l3\<lparr>align_items := placed\<rparr>)" by simp
      with r1 show ?thesis by simp
    qed
  qed
qed

section \<open>The walk over the tree\<close>

lemma update_then:
  fixes its :: "item list"
  assumes r: "r = snd (SizeController_update tw th pw ph l)"
  shows "SizeController_update tw th pw ph (r\<lparr>align_items := its\<rparr>) =
     (if reachesAlign tw th pw ph l then
        (case FlexAlignController_update (size__width r) (flexDirection (layout_style l))
                (flexWrap (layout_style l)) (justifyContent (layout_style l)) its of
           Inl e \<Rightarrow> (Some e, r\<lparr>align_items := its\<rparr>)
         | Inr placed \<Rightarrow> (None, r\<lparr>align_items := placed\<rparr>))
      else (None, r\<lparr>align_items := its\<rparr>)) \<and>
     reachesAlign tw th pw ph (r\<lparr>align_items := its\<rparr>) = reachesAlign tw th pw ph l \<and>
     layout_style r = layout_style l \<and>
     SizeController_update tw th pw ph l =
     (if reachesAlign tw th pw ph l then
        (case FlexAlignController_update (size__width r) (flexDirection (layout_style l))
                (flexWrap (layout_style l)) (justifyContent (layout_style l)) (align_items l) of
           Inl e \<Rightarrow> (Some e, r\<lparr>align_items := align_items l\<rparr>)
         | Inr placed \<Rightarrow> (None, r\<lparr>align_items := placed\<rparr>))
      else (None, r\<lparr>align_items := align_items l\<rparr>))"
proof (cases "width (layout_style l) = Fixed (Pixels 0) \<or> height (layout_style l) = Fixed (Pixels 0)")
  case True
  then have nr: "\<not> reachesAlign tw th pw ph l" by (auto simp: reachesAlign_def Let_def)
  from True have r1: "r = l\<lparr>parentWidth := pw, parentHeight := ph, visible := False\<rparr>"
    by (simp add: r SizeController_update_def Let_def)
  from True r1 have "\<not> reachesAlign tw th pw ph (r\<lparr>align_items := its\<rparr>)"
    by (auto simp: reachesAlign_def Let_def)
  moreover from True r1 have "SizeController_update tw th pw ph (r\<lparr>align_items := its\<rparr>) =
      (None, r\<lparr>align_items := its\<rparr>)"
    by (simp add: SizeController_update_def Let_def)
  moreover from True r1 have "SizeController_update tw th pw ph l = (None, r\<lparr>align_items := align_items l\<rparr>)"
    by (simp add: SizeController_update_def Let_def)
  moreover from r1 have "layout_style r = layout_style l" by simp
  ultimately show ?thesis using nr by simp
next
  case False
  define l1 where "l1 = wrapInnerText tw pw (l\<lparr>parentWidth := pw, parentHeight := ph\<rparr>)"
  have st1: "layout_style l1 = layout_style l" and pw1: "parentWidth l1 = pw"
    and ph1: "parentHeight l1 = ph" and it1: "align_items l1 = align_items l"
    by (simp_all add: l1_def wrapInnerText_fields)
  have w1: "wrapInnerText tw pw l1 = l1"
  proof -
    have "content_children (wrapInnerText tw pw l1) = content_children l1"
      unfolding l1_def by (rule wrapInnerText_content_idem)
    with wrapInnerText_content_only [of tw pw l1] show ?thesis by simp
  qed
  have stable: "wrapInnerText tw pw x = x \<and> computedWidth tw pw x = computedWidth tw pw l1 \<and>
      computedHeight th ph x = computedHeight th ph l1"
    if "layout_style x = layout_style l1" "content_children x = content_children l1"
      "parent_padding x = parent_padding l1" for x
  proof -
    from that have "content_children (wrapInnerText tw pw x) = content_children (wrapInnerText tw pw l1)"
      by (intro wrapInnerText_content_cong)
    with w1 that have "content_children (wrapInnerText tw pw x) = content_children x" by simp
    with wrapInnerText_content_only [of tw pw x] have "wrapInnerText tw pw x = x" by simp
    moreover from that have "computedWidth tw pw x = computedWidth tw pw l1"
      by (intro computedWidth_cong)
    moreover from that have "computedHeight th ph x = computedHeight th ph l1"
      by (intro computedHeight_cong)
    ultimately show ?thesis by simp
  qed
  have reach_iff: "reachesAlign tw th pw ph l \<longleftrightarrow>
      \<not> (computedWidth tw pw l1 = 0 \<or> computedHeight th ph l1 = 0)"
    using False by (simp add: reachesAlign_def Let_def l1_def)
  have reach_x: "reachesAlign tw th pw ph x \<longleftrightarrow>
      \<not> (computedWidth tw pw l1 = 0 \<or> computedHeight th ph l1 = 0)"
    if "layout_style x = layout_style l1" "content_children x = content_children l1"
      "parent_padding x = parent_padding l1" "parentWidth x = pw" "parentHeight x = ph" for x
  proof -
    from that(4,5) have same: "x\<lparr>parentWidth := pw, parentHeight := ph\<rparr> = x" by simp
    from stable [OF that(1-3)] that(1) st1 False show ?thesis
      unfolding reachesAlign_def Let_def same by simp
  qed
  define l2 where "l2 = l1\<lparr>size__width := computedWidth tw pw l1, size__height := computedHeight th ph l1,
                   scale_x := Fin (scaleX (layout_style l)), scale_y := Fin (scaleY (layout_style l))\<rparr>"
  define l3 where "l3 = (if truthy (maxWidth (layout_style l)) \<or> truthy (maxHeight (layout_style l))
                 then fitToSize pw ph l2 else l2)"
  have first: "SizeController_update tw th pw ph l =
    (if computedWidth tw pw l1 = 0 \<or> computedHeight th ph l1 = 0 then (None, l1\<lparr>visible := False\<rparr>)
     else case FlexAlignController_update (size__width l3) (flexDirection (layout_style l))
                 (flexWrap (layout_style l)) (justifyContent (layout_style l)) (align_items l3) of
            Inl e \<Rightarrow> (Some e, l3)
          | Inr placed \<Rightarrow> (None, l3\<lparr>align_items := placed\<rparr>))"
    unfolding SizeController_update_def Let_def l1_def l2_def l3_def
    by (simp only: False if_False)
  show ?thesis
  proof (cases "computedWidth tw pw l1 = 0 \<or> computedHeight th ph l1 = 0")
    case True
    with reach_iff have nr: "\<not> reachesAlign tw th pw ph l" by simp
    from first True have r1: "r = l1\<lparr>visible := False\<rparr>" by (simp add: r)
    define x where "x = r\<lparr>align_items := its\<rparr>"
    have base: "layout_style x = layout_style l1" "content_children x = content_children l1"
      "parent_padding x = parent_padding l1" by (simp_all add: x_def r1)
    from stable [OF base] have sx: "wrapInnerText tw pw x = x"
      and cw: "computedWidth tw pw x = computedWidth tw pw l1"
      and ch: "computedHeight th ph x = computedHeight th ph l1" by simp_all
    have px: "parentWidth x = pw" "parentHeight x = ph" and sty: "layout_style x = layout_style l"
      by (simp_all add: x_def r1 pw1 ph1 st1)
    from False sty have nz: "width (layout_style x) \<noteq> Fixed (Pixels 0)"
      "height (layout_style x) \<noteq> Fixed (Pixels 0)" by simp_all
    from True cw ch have z: "computedWidth tw pw x = 0 \<or> computedHeight th ph x = 0" by simp
    have "x\<lparr>visible := False\<rparr> = x" by (simp add: x_def r1)
    with update_again_stop [OF px sx nz z]
    have a: "SizeController_update tw th pw ph x = (None, x)" by simp
    from reach_x [OF base px] True have b: "\<not> reachesAlign tw th pw ph x" by simp
    from r1 st1 have c: "layout_style r = layout_style l" by simp
    from first True r1 it1 have d: "SizeController_update tw th pw ph l = (None, r\<lparr>align_items := align_items l\<rparr>)"
      by simp
    from a b c d nr show ?thesis by (simp add: x_def)
  next
    case nonzero: False
    with reach_iff have yr: "reachesAlign tw th pw ph l" by simp
    have l3_form: "l3 = l2\<lparr>scale_x := scale_x l3, scale_y := scale_y l3\<rparr>"
      using fitToSize_scale_only [of pw ph l2] by (simp add: l3_def)
    have l3_fields: "size__width l3 = computedWidth tw pw l1" "align_items l3 = align_items l"
      by (simp_all add: l3_def l2_def fitToSize_fields it1)
    have rshape: "\<exists>its0. r = l3\<lparr>align_items := its0\<rparr>"
    proof (cases "FlexAlignController_update (size__width l3) (flexDirection (layout_style l))
                 (flexWrap (layout_style l)) (justifyContent (layout_style l)) (align_items l3)")
      case (Inl e)
      with first nonzero have "r = l3\<lparr>align_items := align_items l3\<rparr>" by (simp add: r)
      then show ?thesis by blast
    next
      case (Inr placed)
      with first nonzero have "r = l3\<lparr>align_items := placed\<rparr>" by (simp add: r)
      then show ?thesis by blast
    qed
    then obtain its0 where r0: "r = l3\<lparr>align_items := its0\<rparr>" by blast
    have rw: "size__width r = size__width l3" by (simp add: r0)
    define x where "x = l3\<lparr>align_items := its\<rparr>"
    have xr: "r\<lparr>align_items := v\<rparr> = l3\<lparr>align_items := v\<rparr>" for v by (simp add: r0)
    have restore: "x\<lparr>size__width := computedWidth tw pw l1, size__height := computedHeight th ph l1,
                   scale_x := Fin (scaleX (layout_style l)), scale_y := Fin (scaleY (layout_style l))\<rparr>
                = l2\<lparr>align_items := align_items x\<rparr>"
      by (subst x_def, subst x_def, subst l3_form) (simp add: l2_def)
    have base: "layout_style x = layout_style l1" "content_children x = content_children l1"
      "parent_padding x = parent_padding l1"
      by (simp_all add: x_def l3_def l2_def fitToSize_fields)
    from stable [OF base] have sx: "wrapInnerText tw pw x = x"
      and cw: "computedWidth tw pw x = computedWidth tw pw l1"
      and ch: "computedHeight th ph x = computedHeight th ph l1" by simp_all
    have px: "parentWidth x = pw" "parentHeight x = ph" and sty: "layout_style x = layout_style l"
      by (simp_all add: x_def l3_def l2_def fitToSize_fields pw1 ph1 st1)
    from False sty have nz: "width (layout_style x) \<noteq> Fixed (Pixels 0)"
      "height (layout_style x) \<noteq> Fixed (Pixels 0)" by simp_all
    have items: "align_items x = its" by (simp add: x_def)
    have fit: "x = (if truthy (maxWidth (layout_style x)) \<or> truthy (maxHeight (layout_style x))
                 then fitToSize pw ph (l2\<lparr>align_items := its\<rparr>) else l2\<lparr>align_items := its\<rparr>)"
      by (simp add: sty) (simp add: x_def l3_def fitToSize_align_items_update)
    from nonzero cw ch have c0: "computedWidth tw pw x \<noteq> 0" "computedHeight th ph x \<noteq> 0"
      by simp_all
    from restore items cw ch sty
    have two: "l2\<lparr>align_items := its\<rparr> =
        x\<lparr>size__width := computedWidth tw pw x, size__height := computedHeight th ph x,
                 scale_x := Fin (scaleX (layout_style x)), scale_y := Fin (scaleY (layout_style x))\<rparr>"
      by simp
    have res: "FlexAlignController_update (size__width l3) (flexDirection (layout_style l))
               (flexWrap (layout_style l)) (justifyContent (layout_style l)) its =
        FlexAlignController_update (size__width x) (flexDirection (layout_style x))
               (flexWrap (layout_style x)) (justifyContent (layout_style x)) (align_items x)"
      using sty items by (simp add: x_def)
    from update_again [OF px sx nz c0 two fit res]
    have a: "SizeController_update tw th pw ph x =
        (case FlexAlignController_update (size__width l3) (flexDirection (layout_style l))
               (flexWrap (layout_style l)) (justifyContent (layout_style l)) its of
           Inl e \<Rightarrow> (Some e, x) | Inr placed \<Rightarrow> (None, x\<lparr>align_items := placed\<rparr>))" .
    have xp: "x\<lparr>align_items := v\<rparr> = l3\<lparr>align_items := v\<rparr>" for v by (simp add: x_def)
    from reach_x [OF base px] nonzero have b: "reachesAlign tw th pw ph x" by simp
    from r0 have c: "layout_style r = layout_style l"
      by (simp add: l3_def l2_def fitToSize_fields st1)
    have l3id: "l3\<lparr>align_items := align_items l\<rparr> = l3" using l3_fields by simp
    from first nonzero l3_fields
    have d0: "SizeController_update tw th pw ph l =
        (case FlexAlignController_update (size__width l3) (flexDirection (layout_style l))
                (flexWrap (layout_style l)) (justifyContent (layout_style l)) (align_items l) of
           Inl e \<Rightarrow> (Some e, l3)
         | Inr placed \<Rightarrow> (None, l3\<lparr>align_items := placed\<rparr>))"
      by simp
    have d: "SizeController_update tw th pw ph l =
        (case FlexAlignController_update (size__width l3) (flexDirection (layout_style l))
                (flexWrap (layout_style l)) (justifyContent (layout_style l)) (align_items l) of
           Inl e \<Rightarrow> (Some e, l3\<lparr>align_items := align_items l\<rparr>)
         | Inr placed \<Rightarrow> (None, l3\<lparr>align_items := placed\<rparr>))"
      unfolding l3id by (rule d0)
    have a': "SizeController_update tw th pw ph (l3\<lparr>align_items := its\<rparr>) =
        (case FlexAlignController_update (size__width l3) (flexDirection (layout_style l))
               (flexWrap (layout_style l)) (justifyContent (layout_style l)) its of
           Inl e \<Rightarrow> (Some e, l3\<lparr>align_items := its\<rparr>)
         | Inr placed \<Rightarrow> (None, l3\<lparr>align_items := placed\<rparr>))"
      using a unfolding xp unfolding x_def .
    have b': "reachesAlign tw th pw ph (l3\<lparr>align_items := its\<rparr>) = reachesAlign tw th pw ph l"
      using b yr by (simp add: x_def)
    show ?thesis
      unfolding xr rw if_P [OF yr]
      by (intro conjI a' b' c d)
  qed
qed

lemma FlexAlignController_update_Inl:
  "FlexAlignController_update w direction wrap justify its = Inl e \<Longrightarrow>
   FlexAlignController_update w' direction wrap' justify' its' = Inl e"
  by (cases e) (auto simp: FlexAlignController_update_def split: if_splits)

lemma FlexAlignController_update_Inr:
  "FlexAlignController_update w direction wrap justify its = Inr placed \<Longrightarrow>
   \<exists>placed'. FlexAlignController_update w' direction wrap' justify' its' = Inr placed'"
  by (auto simp: FlexAlignController_update_def split: if_splits)

lemma sized_items_Nil [simp]: "sized_items children [] = []"
  by (cases children) simp_all

lemma sized_items_fixed:
  "map unplaced a = map unplaced (sized_items children its) \<Longrightarrow> sized_items children a = a"
proof (induction children its arbitrary: a rule: sized_items.induct)
  case (1 child children it its)
  then obtain x xs where a: "a = x # xs" by (cases a) simp_all
  with "1.prems" have u: "unplaced x = unplaced (it\<lparr>child_width := size__width (layout_of child),
      child_height := size__height (layout_of child)\<rparr>)"
    and rest: "map unplaced xs = map unplaced (sized_items children its)" by simp_all
  from u have "child_width (unplaced x) = size__width (layout_of child)"
    "child_height (unplaced x) = size__height (layout_of child)" by simp_all
  then have same: "x\<lparr>child_width := size__width (layout_of child),
      child_height := size__height (layout_of child)\<rparr> = x" by simp
  from "1.IH" [OF rest] have "sized_items children xs = xs" .
  with same show ?case unfolding a by simp
qed simp_all

lemma sized_items_cong:
  "map (\<lambda>k. (size__width (layout_of k), size__height (layout_of k))) children' =
   map (\<lambda>k. (size__width (layout_of k), size__height (layout_of k))) children \<Longrightarrow>
   sized_items children' its = sized_items children its"
proof (induction children its arbitrary: children' rule: sized_items.induct)
  case (1 child children it its)
  from "1.prems" obtain c cs where c: "children' = c # cs" by (cases children') simp_all
  with "1.prems" have hd: "size__width (layout_of c) = size__width (layout_of child)"
      "size__height (layout_of c) = size__height (layout_of child)"
    and tl: "map (\<lambda>k. (size__width (layout_of k), size__height (layout_of k))) cs =
      map (\<lambda>k. (size__width (layout_of k), size__height (layout_of k))) children"
    by simp_all
  from "1.IH" [OF tl] have "sized_items cs its = sized_items children its" .
  with c hd show ?case by simp
qed simp_all

lemma update_then_sizes:
  fixes its :: "item list"
  assumes "r = snd (SizeController_update tw th pw ph l)"
  shows "size__width (snd (SizeController_update tw th pw ph (r\<lparr>align_items := its\<rparr>))) = size__width r \<and>
         size__height (snd (SizeController_update tw th pw ph (r\<lparr>align_items := its\<rparr>))) = size__height r"
proof -
  note t = update_then [OF assms, of its]
  show ?thesis
  proof (cases "reachesAlign tw th pw ph l")
    case False
    with t show ?thesis by simp
  next
    case True
    show ?thesis
    proof (cases "FlexAlignController_update (size__width r) (flexDirection (layout_style l))
                (flexWrap (layout_style l)) (justifyContent (layout_style l)) its")
      case (Inl e)
      with t True show ?thesis by simp
    next
      case (Inr placed)
      with t True show ?thesis by simp
    qed
  qed
qed

lemma resolve_root:
  "layout_of (resolve tw th W H (Tree l children)) =
   snd (SizeController_update tw th W H (l\<lparr>align_items := sized_items children (align_items l)\<rparr>))"
  by (simp add: Let_def)

lemma resolve_root_sizes:
  "size__width (layout_of (resolve tw th W H (resolve tw th W H t))) =
     size__width (layout_of (resolve tw th W H t)) \<and>
   size__height (layout_of (resolve tw th W H (resolve tw th W H t))) =
     size__height (layout_of (resolve tw th W H t))"
proof -
  obtain l children where t: "t = Tree l children" by (cases t)
  obtain r children' where once: "resolve tw th W H t = Tree r children'"
    by (cases "resolve tw th W H t")
  from once t resolve_root [of tw th W H l children]
  have r: "r = snd (SizeController_update tw th W H (l\<lparr>align_items := sized_items children (align_items l)\<rparr>))"
    by simp
  from update_then_sizes [OF r, of "sized_items children' (align_items r)"]
    resolve_root [of tw th W H r children'] once
  show ?thesis by simp
qed


lemma snd_eqD: "p = (a, b) \<Longrightarrow> snd p = b"
  by simp

lemma resolve_Tree:
  "resolve tw th W H (Tree l children) =
    (if fst (SizeController_update tw th W H (l\<lparr>align_items := sized_items children (align_items l)\<rparr>)) = None \<and>
        reachesAlign tw th W H (l\<lparr>align_items := sized_items children (align_items l)\<rparr>)
     then Tree (snd (SizeController_update tw th W H (l\<lparr>align_items := sized_items children (align_items l)\<rparr>)))
            (map (resolve tw th
                    (size__width (snd (SizeController_update tw th W H (l\<lparr>align_items := sized_items children (align_items l)\<rparr>))))
                    (size__height (snd (SizeController_update tw th W H (l\<lparr>align_items := sized_items children (align_items l)\<rparr>)))))
               children)
     else Tree (snd (SizeController_update tw th W H (l\<lparr>align_items := sized_items children (align_items l)\<rparr>))) children)"
  by (simp add: Let_def)

lemma resolve_settles:
  "resolve tw th W H (resolve tw th W H (resolve tw th W H t)) =
   resolve tw th W H (resolve tw th W H t)"
proof (induction t arbitrary: W H)
  case (Tree l ks)
  define S where "S = sized_items ks (align_items l)"
  define l_in where "l_in = l\<lparr>align_items := S\<rparr>"
  define r where "r = snd (SizeController_update tw th W H l_in)"
  define A :: "item list \<Rightarrow> error + item list"
    where "A = FlexAlignController_update (size__width r) (flexDirection (layout_style l_in))
      (flexWrap (layout_style l_in)) (justifyContent (layout_style l_in))"
  have items_in: "align_items l_in = S" by (simp add: l_in_def)
  have after: "SizeController_update tw th W H (r\<lparr>align_items := its\<rparr>) =
     (if reachesAlign tw th W H l_in then
        (case A its of
           Inl e \<Rightarrow> (Some e, r\<lparr>align_items := its\<rparr>)
         | Inr placed \<Rightarrow> (None, r\<lparr>align_items := placed\<rparr>))
      else (None, r\<lparr>align_items := its\<rparr>))"
    and reach_after: "reachesAlign tw th W H (r\<lparr>align_items := its\<rparr>) = reachesAlign tw th W H l_in"
    for its
    using update_then [OF r_def, of its] unfolding A_def by blast+
  have first: "SizeController_update tw th W H l_in =
     (if reachesAlign tw th W H l_in then
        (case A S of
           Inl e \<Rightarrow> (Some e, r\<lparr>align_items := S\<rparr>)
         | Inr placed \<Rightarrow> (None, r\<lparr>align_items := placed\<rparr>))
      else (None, r\<lparr>align_items := S\<rparr>))"
    using update_then [OF r_def, of S] unfolding A_def items_in by blast
  have step: "resolve tw th W H (Tree l ks) =
    (if fst (SizeController_update tw th W H l_in) = None \<and> reachesAlign tw th W H l_in
     then Tree r (map (resolve tw th (size__width r) (size__height r)) ks)
     else Tree r ks)"
    unfolding r_def l_in_def S_def by (rule resolve_Tree)
  have SS: "sized_items ks S = S"
    unfolding S_def by (rule sized_items_fixed) (rule refl)
  show ?case
  proof (cases "reachesAlign tw th W H l_in \<and> (\<exists>placed. A S = Inr placed)")
    case False
    have items_r: "align_items r = S" and cond: "\<not> (fst (SizeController_update tw th W H l_in) = None \<and>
        reachesAlign tw th W H l_in)"
    proof -
      show "align_items r = S"
      proof (cases "reachesAlign tw th W H l_in")
        case nr: False
        with first have "SizeController_update tw th W H l_in = (None, r\<lparr>align_items := S\<rparr>)" by simp
        from snd_eqD [OF this] have "r = r\<lparr>align_items := S\<rparr>" unfolding r_def [symmetric] .
        then have "align_items r = align_items (r\<lparr>align_items := S\<rparr>)" by simp
        then show ?thesis by simp
      next
        case yr: True
        with False obtain e where "A S = Inl e" by (cases "A S") auto
        with first yr have "SizeController_update tw th W H l_in = (Some e, r\<lparr>align_items := S\<rparr>)"
          by simp
        from snd_eqD [OF this] have "r = r\<lparr>align_items := S\<rparr>" unfolding r_def [symmetric] .
        then have "align_items r = align_items (r\<lparr>align_items := S\<rparr>)" by simp
        then show ?thesis by simp
      qed
      show "\<not> (fst (SizeController_update tw th W H l_in) = None \<and> reachesAlign tw th W H l_in)"
      proof (cases "reachesAlign tw th W H l_in")
        case nr: False
        then show ?thesis by simp
      next
        case yr: True
        with False obtain e where "A S = Inl e" by (cases "A S") auto
        with first yr have "SizeController_update tw th W H l_in = (Some e, r\<lparr>align_items := S\<rparr>)"
          by simp
        then show ?thesis by simp
      qed
    qed
    from step cond have once: "resolve tw th W H (Tree l ks) = Tree r ks" by simp
    have rS: "r\<lparr>align_items := S\<rparr> = r" using items_r by simp
    have upd_r: "SizeController_update tw th W H r = SizeController_update tw th W H l_in"
      using after [of S] first unfolding rS by simp
    have reach_r: "reachesAlign tw th W H r = reachesAlign tw th W H l_in"
      using reach_after [of S] unfolding rS .
    have in_r: "r\<lparr>align_items := sized_items ks (align_items r)\<rparr> = r"
      unfolding items_r SS by (rule rS)
    have "resolve tw th W H (Tree r ks) = Tree r ks"
      unfolding resolve_Tree in_r upd_r reach_r if_not_P [OF cond] r_def [symmetric] by (rule refl)
    with once show ?thesis by simp
  next
    case True
    then have yr: "reachesAlign tw th W H l_in" and "\<exists>placed. A S = Inr placed" by simp_all
    then obtain placed where AS: "A S = Inr placed" by blast
    from first yr AS have f1: "SizeController_update tw th W H l_in = (None, r\<lparr>align_items := placed\<rparr>)"
      by simp
    define w where "w = size__width r"
    define h where "h = size__height r"
    define ks1 where "ks1 = map (resolve tw th w h) ks"
    define ks2 where "ks2 = map (resolve tw th w h) ks1"
    from snd_eqD [OF f1] have "r = r\<lparr>align_items := placed\<rparr>" unfolding r_def [symmetric] .
    then have "align_items r = align_items (r\<lparr>align_items := placed\<rparr>)" by simp
    then have items_r: "align_items r = placed" by simp
    from step f1 yr have once: "resolve tw th W H (Tree l ks) = Tree r ks1"
      by (simp add: ks1_def w_def h_def)
    define S2 where "S2 = sized_items ks1 placed"
    from AS obtain placed2 where AS2: "A S2 = Inr placed2"
      unfolding A_def using FlexAlignController_update_Inr by blast
    define r2 where "r2 = r\<lparr>align_items := placed2\<rparr>"
    have r2_fields: "size__width r2 = w" "size__height r2 = h" "align_items r2 = placed2"
      by (simp_all add: r2_def w_def h_def)
    from after [of S2] yr AS2 have u2: "SizeController_update tw th W H (r\<lparr>align_items := S2\<rparr>) = (None, r2)"
      by (simp add: r2_def)
    have "resolve tw th W H (Tree r ks1) = Tree r2 ks2"
      unfolding resolve_Tree items_r S2_def [symmetric] u2 reach_after
      using yr by (simp add: r2_fields ks2_def)
    with once have twice: "resolve tw th W H (resolve tw th W H (Tree l ks)) = Tree r2 ks2" by simp
    have sizes: "map (\<lambda>k. (size__width (layout_of k), size__height (layout_of k))) ks2 =
        map (\<lambda>k. (size__width (layout_of k), size__height (layout_of k))) ks1"
      unfolding ks2_def ks1_def using resolve_root_sizes [of tw th w h] by simp
    have "map unplaced placed2 = map unplaced S2"
      using AS2 unfolding A_def by (rule unplaced_update)
    then have "sized_items ks1 placed2 = placed2"
      unfolding S2_def by (rule sized_items_fixed)
    with sized_items_cong [OF sizes, of placed2] have S3: "sized_items ks2 placed2 = placed2" by simp
    have "A placed2 = Inr placed2"
      using AS2 unfolding A_def by (rule FlexAlignController_update_idem)
    with after [of placed2] yr have u3: "SizeController_update tw th W H r2 = (None, r2)"
      by (simp add: r2_def)
    have in3: "r2\<lparr>align_items := sized_items ks2 (align_items r2)\<rparr> = r2"
      by (simp add: r2_fields S3)
    have reach3: "reachesAlign tw th W H r2"
      using reach_after [of placed2] yr by (simp add: r2_def)
    have kids: "map (resolve tw th w h) ks2 = ks2"
    proof -
      have "resolve tw th w h (resolve tw th w h (resolve tw th w h k)) =
          resolve tw th w h (resolve tw th w h k)" if "k \<in> set ks" for k
        using that by (rule Tree.IH)
      then show ?thesis
        unfolding ks2_def ks1_def by simp
    qed
    have "resolve tw th W H (Tree r2 ks2) = Tree r2 ks2"
      unfolding resolve_Tree in3 u3 using reach3 by (simp add: r2_fields kids)
    with twice show ?thesis by simp
  qed
qed




end
